theory Spec2Isabelle
  imports Complex_Main "HOL-Library.Char_ord" "HOL-Library.List_Lexorder" "HOL-Library.AList"
begin

section \<open>Strings\<close>

text \<open>
  Python strings are modelled as \<^typ>\<open>string\<close>, one \<^typ>\<open>char\<close> per character, restricted to
  the ASCII range: \<open>str.lower\<close> maps \<open>A\<close>..\<open>Z\<close> to \<open>a\<close>..\<open>z\<close> and leaves every other
  character alone, and the whitespace removed by \<open>str.strip\<close> is the ASCII whitespace of
  Python (codes 9 to 13, 28 to 31 and 32). Strings compare lexicographically by character
  code, as Python's \<open>sorted\<close> does.
\<close>

definition is_space :: "char \<Rightarrow> bool" where
  "is_space c = (of_char c \<in> {9::nat, 10, 11, 12, 13, 28, 29, 30, 31, 32})"

definition lower_char :: "char \<Rightarrow> char" where
  "lower_char c =
     (if CHR ''A'' \<le> c \<and> c \<le> CHR ''Z'' then char_of (of_char c + (32::nat)) else c)"

text \<open>\<open>s.lower()\<close>\<close>

definition lower :: "string \<Rightarrow> string" where
  "lower s = map lower_char s"

definition rstrip_ws :: "string \<Rightarrow> string" where
  "rstrip_ws s = rev (dropWhile is_space (rev s))"

text \<open>\<open>s.strip()\<close>: leading and trailing whitespace removed.\<close>

definition strip :: "string \<Rightarrow> string" where
  "strip s = rstrip_ws (dropWhile is_space s)"

text \<open>\<open>s.rstrip(c)\<close> for a one-character argument: every trailing \<open>c\<close> removed.\<close>

definition rstrip :: "char \<Rightarrow> string \<Rightarrow> string" where
  "rstrip c s = rev (dropWhile (\<lambda>x. x = c) (rev s))"

text \<open>\<open>s.startswith(p)\<close>\<close>

definition startswith :: "string \<Rightarrow> string \<Rightarrow> bool" where
  "startswith s p = (take (length p) s = p)"

section \<open>The domain normalizer (build\_dataset.py)\<close>

text \<open>
  \<^verbatim>\<open>
  def normalize_domain(domain: str) -> str:
      d = domain.lower().strip().rstrip("/").rstrip(".")
      if d.startswith("www."):
          d = d[4:]
      return d
  \<close>
\<close>

definition normalize_domain :: "string \<Rightarrow> string" where
  "normalize_domain domain =
     (let d = rstrip (CHR ''.'') (rstrip (CHR ''/'') (strip (lower domain)))
      in if startswith d ''www.'' then drop 4 d else d)"

text \<open>
  The strings the normalizer leaves alone, among lowercase strings: no \<open>www.\<close> prefix left,
  no whitespace at either end, and neither \<open>/\<close> nor \<open>.\<close> at the end.
\<close>

definition stable_domain :: "string \<Rightarrow> bool" where
  "stable_domain y =
     (\<not> startswith y ''www.'' \<and>
      (case y of [] \<Rightarrow> True | c # _ \<Rightarrow> \<not> is_space c) \<and>
      (case rev y of [] \<Rightarrow> True | c # _ \<Rightarrow> \<not> is_space c \<and> c \<noteq> CHR ''/'' \<and> c \<noteq> CHR ''.''))"

section \<open>The consumer's lookup (examples/usage.py)\<close>

text \<open>
  \<^verbatim>\<open>
  def check_domain(cred: dict, domain: str) -> dict:
      domain = domain.lower().strip().rstrip("/")
      if domain.startswith("www."):
          domain = domain[4:]
      return cred.get(domain)
  \<close>
  The loaded dataset \<open>cred\<close> is a dictionary, here a map from keys to entries; \<open>None\<close>
  is the miss.
\<close>

definition check_domain :: "(string \<rightharpoonup> 'v) \<Rightarrow> string \<Rightarrow> 'v option" where
  "check_domain cred domain =
     (let domain = rstrip (CHR ''/'') (strip (lower domain));
          domain = (if startswith domain ''www.'' then drop 4 domain else domain)
      in cred domain)"

section \<open>Dictionaries and errors\<close>

text \<open>
  A Python dictionary is an association list in insertion order with distinct keys:
  \<open>d.get(k)\<close> is \<^const>\<open>map_of\<close>, \<open>d[k] = v\<close> is \<^const>\<open>AList.update\<close> (a new key is appended,
  an old key keeps its place), \<open>d.keys()\<close> is \<open>map fst\<close>.
\<close>

type_synonym 'v dict = "(string \<times> 'v) list"

text \<open>\<open>d.get(k, default)\<close>\<close>

definition dict_get :: "'v dict \<Rightarrow> string \<Rightarrow> 'v \<Rightarrow> 'v" where
  "dict_get d k dflt = (case map_of d k of None \<Rightarrow> dflt | Some v \<Rightarrow> v)"

text \<open>The exceptions the modelled code can raise.\<close>

datatype py_error = UnboundLocalError | ValueError | IndexError | ZeroDivisionError | SystemExit

section \<open>Category taxonomy and lookup tables (build\_dataset.py)\<close>

definition OPENSOURCES_CATEGORY_MAP :: "string dict" where
  "OPENSOURCES_CATEGORY_MAP =
    [(''fake'', ''fake''),
     (''fake news'', ''fake''),
     (''Fake'', ''fake''),
     (''fake '', ''fake''),
     (''bias'', ''mixed''),
     (''conspiracy'', ''conspiracy''),
     (''Conspiracy'', ''conspiracy''),
     (''satire'', ''satire''),
     (''satirical'', ''satire''),
     (''unreliable'', ''unreliable''),
     (''unrealiable'', ''unreliable''),
     ('' unreliable'', ''unreliable''),
     (''clickbait'', ''unreliable''),
     (''political'', ''mixed''),
     (''Political'', ''mixed''),
     (''junksci'', ''unreliable''),
     (''hate'', ''unreliable''),
     (''rumor'', ''unreliable''),
     (''rumor '', ''unreliable''),
     (''reliable'', ''reliable''),
     (''state'', ''mixed''),
     (''blog'', ''other'')]"

definition IFFY_FACTUAL_MAP :: "string dict" where
  "IFFY_FACTUAL_MAP =
    [(''VL'', ''fake''),
     (''L'', ''unreliable''),
     (''M'', ''mixed''),
     (''MH'', ''mostly_reliable''),
     (''H'', ''reliable''),
     (''VH'', ''reliable'')]"

definition category_priority :: "string list" where
  "category_priority =
    [''fake'', ''conspiracy'', ''unreliable'', ''mixed'', ''satire'', ''other'',
     ''mostly_reliable'', ''reliable'']"

text \<open>
  The worst-wins loop, written twice in the source (in \<open>parse_opensources\<close> over the
  mapped types, in \<open>merge_entries\<close> over the two entries' categories):
  \<^verbatim>\<open>
  primary = "other"
  for cat in category_priority:
      if cat in types:
          primary = cat
          break
  \<close>
\<close>

definition primary :: "string list \<Rightarrow> string" where
  "primary types =
     (case find (\<lambda>cat. cat \<in> set types) category_priority of
        None \<Rightarrow> ''other''
      | Some cat \<Rightarrow> cat)"

section \<open>Domain records\<close>

text \<open>
  An entry is a Python dictionary with a fixed repertoire of keys. The keys every entry has
  are plain fields; a key that may be missing is an \<open>option\<close> (\<open>None\<close>: the key is absent).
  The three Iffy fields that the parser stores as Python \<open>None\<close> when the CSV cell is empty or
  malformed are doubly optional: \<open>Some None\<close> is the key present with the value \<open>None\<close>.
  \<open>categories_all\<close> is built by \<open>list(set(...))\<close>, whose order Python does not fix: it is a set.
  Floats are modelled as real numbers.
\<close>

record score_components =
  comp_category :: real
  comp_iffy :: "real option"
  comp_tranco :: "real option"
  comp_age :: "real option"
  comp_factcheck :: "real option"
  comp_safe_browsing :: "string option"

record entry =
  domain :: string
  category :: string
  categories_all :: "string set"
  sources :: "string list"
  opensources_types :: "string list option"
  iffy_factual :: "string option"
  iffy_bias :: "string option"
  iffy_cred :: "string option"
  iffy_score :: "real option option"
  iffy_site_rank :: "int option option"
  iffy_year_online :: "int option option"
  iffy_lang :: "string option"
  iffy_name :: "string option"
  tranco_rank :: "int option"
  domain_age_years :: "real option"
  domain_registered :: "string option"
  factcheck_claims :: "int option"
  safe_browsing_flagged :: "bool option"
  credibility_score :: "real option"
  score_components :: "score_components option"

text \<open>An entry with the four keys both parsers set and no other key.\<close>

definition new_entry :: "string \<Rightarrow> string \<Rightarrow> string set \<Rightarrow> string list \<Rightarrow> entry" where
  "new_entry d cat cats srcs =
     \<lparr> domain = d, category = cat, categories_all = cats, sources = srcs,
       opensources_types = None,
       iffy_factual = None, iffy_bias = None, iffy_cred = None, iffy_score = None,
       iffy_site_rank = None, iffy_year_online = None, iffy_lang = None, iffy_name = None,
       tranco_rank = None, domain_age_years = None, domain_registered = None,
       factcheck_claims = None, safe_browsing_flagged = None,
       credibility_score = None, score_components = None \<rparr>"

section \<open>Parsing the two sources (build\_dataset.py)\<close>

text \<open>
  \<open>parse_opensources\<close> reads a JSON object \<open>domain -> info\<close>, where \<open>info\<close> maps the keys
  \<open>type\<close>, \<open>2nd type\<close>, \<open>3rd type\<close> to strings. The inner loop collects the mapped types:
  \<^verbatim>\<open>
  types = []
  for key in ["type", "2nd type", "3rd type"]:
      t = info.get(key, "").strip()
      if t:
          mapped = OPENSOURCES_CATEGORY_MAP.get(t, "other")
          types.append(mapped)
  \<close>
\<close>

definition opensources_mapped :: "string \<Rightarrow> string list" where
  "opensources_mapped raw_label =
     (let t = strip raw_label
      in if t \<noteq> [] then [dict_get OPENSOURCES_CATEGORY_MAP t ''other''] else [])"

definition opensources_types_of :: "string dict \<Rightarrow> string list" where
  "opensources_types_of info =
     concat (map (\<lambda>key. opensources_mapped (dict_get info key []))
                 [''type'', ''2nd type'', ''3rd type''])"

definition opensources_entry :: "string \<Rightarrow> string dict \<Rightarrow> entry" where
  "opensources_entry d info =
     (let types = opensources_types_of info
      in (new_entry d (primary types) (set types) [''opensources''])
           \<lparr> opensources_types :=
               Some [dict_get info ''type'' [], dict_get info ''2nd type'' [],
                     dict_get info ''3rd type'' []] \<rparr>)"

definition parse_opensources :: "(string dict) dict \<Rightarrow> entry dict" where
  "parse_opensources raw =
     fold (\<lambda>(domain, info) entries.
             let d = normalize_domain domain
             in if d = [] then entries else AList.update d (opensources_entry d info) entries)
          raw []"

text \<open>
  \<open>parse_iffy\<close> reads the CSV rows, each a dictionary from column names to strings. Python's
  \<open>float\<close> and \<open>int\<close> on strings are parameters \<open>py_float\<close> and \<open>py_int\<close>; \<open>None\<close> is
  their \<open>ValueError\<close>, which the parser catches.
  \<^verbatim>\<open>
  category = IFFY_FACTUAL_MAP.get(factual, "unreliable")
  try:
      iffy_score = float(score_str) if score_str else None
  except ValueError:
      iffy_score = None
  \<close>
\<close>

definition iffy_category :: "string \<Rightarrow> string" where
  "iffy_category factual = dict_get IFFY_FACTUAL_MAP factual ''unreliable''"

definition parse_cell :: "(string \<Rightarrow> 'a option) \<Rightarrow> string \<Rightarrow> 'a option" where
  "parse_cell conv cell = (if cell \<noteq> [] then conv cell else None)"

definition iffy_entry ::
  "(string \<Rightarrow> real option) \<Rightarrow> (string \<Rightarrow> int option) \<Rightarrow> string \<Rightarrow> string dict \<Rightarrow> entry" where
  "iffy_entry py_float py_int d row =
     (let factual = strip (dict_get row ''MBFC Fact'' []);
          bias = strip (dict_get row ''MBFC Bias'' []);
          cred = strip (dict_get row ''MBFC cred'' []);
          score_str = strip (dict_get row ''Score'' []);
          rank_str = strip (dict_get row ''Site Rank'' []);
          year_str = strip (dict_get row ''Year online'' []);
          lang = strip (dict_get row ''Lang'' []);
          name = strip (dict_get row ''Name'' []);
          category = iffy_category factual
      in (new_entry d category {category} [''iffy''])
           \<lparr> iffy_factual := Some factual, iffy_bias := Some bias, iffy_cred := Some cred,
             iffy_score := Some (parse_cell py_float score_str),
             iffy_site_rank := Some (parse_cell py_int rank_str),
             iffy_year_online := Some (parse_cell py_int year_str),
             iffy_lang := Some lang, iffy_name := Some name \<rparr>)"

definition parse_iffy ::
  "(string \<Rightarrow> real option) \<Rightarrow> (string \<Rightarrow> int option) \<Rightarrow> (string dict) list \<Rightarrow> entry dict" where
  "parse_iffy py_float py_int rows =
     fold (\<lambda>row entries.
             let d = normalize_domain (dict_get row ''Domain'' [])
             in if d = [] then entries
                else AList.update d (iffy_entry py_float py_int d row) entries)
          rows []"

section \<open>Merging (build\_dataset.py)\<close>

text \<open>
  \<open>merge_entries(opensources, iffy)\<close> walks the sorted union of the two key sets. For one
  domain \<open>d\<close>, with \<open>os_entry = opensources.get(d)\<close> and \<open>if_entry = iffy.get(d)\<close>:
  when both are there it builds a new entry from the worst of the two categories, the union
  of the \<open>categories_all\<close>, the constant source list and the metadata (the \<open>iffy_*\<close> keys
  of \<open>if_entry\<close>, the \<open>opensources_types\<close> of \<open>os_entry\<close>); otherwise it takes the entry
  that is there. An entry is a non-empty dictionary, hence true as a condition. The result
  \<open>None\<close> stands for the Python \<open>None\<close> that \<open>iffy.get(d)\<close> would give for a key of neither
  map, which cannot occur for a key of the union.
\<close>

definition merge_both :: "string \<Rightarrow> entry \<Rightarrow> entry \<Rightarrow> entry" where
  "merge_both d os_entry if_entry =
     (new_entry d (primary [category os_entry, category if_entry])
                (categories_all os_entry \<union> categories_all if_entry) [''opensources'', ''iffy''])
       \<lparr> iffy_factual := iffy_factual if_entry, iffy_bias := iffy_bias if_entry,
         iffy_cred := iffy_cred if_entry, iffy_score := iffy_score if_entry,
         iffy_site_rank := iffy_site_rank if_entry,
         iffy_year_online := iffy_year_online if_entry,
         iffy_lang := iffy_lang if_entry, iffy_name := iffy_name if_entry,
         opensources_types := opensources_types os_entry \<rparr>"

definition merge_one :: "entry dict \<Rightarrow> entry dict \<Rightarrow> string \<Rightarrow> entry option" where
  "merge_one opensources iffy d =
     (case (map_of opensources d, map_of iffy d) of
        (Some os_entry, Some if_entry) \<Rightarrow> Some (merge_both d os_entry if_entry)
      | (Some os_entry, None) \<Rightarrow> Some os_entry
      | (None, if_entry) \<Rightarrow> if_entry)"

definition all_domains :: "entry dict \<Rightarrow> entry dict \<Rightarrow> string list" where
  "all_domains opensources iffy =
     sorted_list_of_set (set (map fst opensources) \<union> set (map fst iffy))"

definition merge_entries :: "entry dict \<Rightarrow> entry dict \<Rightarrow> entry list" where
  "merge_entries opensources iffy =
     List.map_filter (merge_one opensources iffy) (all_domains opensources iffy)"

section \<open>Rounding and the compact output\<close>

text \<open>
  \<open>round(x, ndigits)\<close> on real numbers: to the nearest multiple of \<open>10^-ndigits\<close>, a tie
  going to the even one. (On binary floats Python rounds the float's exact value, which for
  most decimal literals is not the tie the literal suggests.)
\<close>

definition py_round :: "real \<Rightarrow> nat \<Rightarrow> real" where
  "py_round x ndigits =
     (let y = x * 10 ^ ndigits;
          f = \<lfloor>y\<rfloor>;
          k = (if y - of_int f < 1 / 2 then f
               else if 1 / 2 < y - of_int f then f + 1
               else if even f then f else f + 1)
      in of_int k / 10 ^ ndigits)"

text \<open>
  One value of the compact dataset: \<open>{"s": score, "c": letter, "n": count}\<close>, with the
  optional keys \<open>r\<close> (rank) and \<open>a\<close> (age) that only \<open>step_score\<close> writes.
\<close>

record compact =
  compact_s :: real
  compact_c :: char
  compact_n :: nat
  compact_r :: "int option"
  compact_a :: "real option"

text \<open>\<open>e.get(key)\<close> for a key whose value may be \<open>None\<close>: absent and \<open>None\<close> read alike.\<close>

definition get_opt :: "'a option option \<Rightarrow> 'a option" where
  "get_opt field = (case field of None \<Rightarrow> None | Some v \<Rightarrow> v)"

text \<open>\<open>e["category"][0]\<close>: the first character, \<open>IndexError\<close> on the empty string.\<close>

definition first_letter :: "string \<Rightarrow> py_error + char" where
  "first_letter cat = (case cat of [] \<Rightarrow> Inl IndexError | ch # _ \<Rightarrow> Inr ch)"

text \<open>
  The loop \<open>for e in entries: tier1[e["domain"]] = row(e)\<close>, stopping at the first exception.
\<close>

fun build_tier1 ::
  "(entry \<Rightarrow> py_error + compact) \<Rightarrow> entry list \<Rightarrow> compact dict \<Rightarrow> py_error + compact dict" where
  "build_tier1 row [] tier1 = Inr tier1"
| "build_tier1 row (e # es) tier1 =
     (case row e of
        Inl err \<Rightarrow> Inl err
      | Inr v \<Rightarrow> build_tier1 row es (AList.update (domain e) v tier1))"

section \<open>The builder's compact output (step\_merge, build\_dataset.py)\<close>

definition CREDIBILITY_SCORES :: "real dict" where
  "CREDIBILITY_SCORES =
    [(''reliable'', 1.0),
     (''mostly_reliable'', 0.8),
     (''mixed'', 0.5),
     (''satire'', 0.3),
     (''other'', 0.5),
     (''unreliable'', 0.2),
     (''conspiracy'', 0.1),
     (''fake'', 0.0)]"

text \<open>
  \<^verbatim>\<open>
  score = CREDIBILITY_SCORES.get(e["category"], 0.5)
  iffy_score = e.get("iffy_score")
  if iffy_score is not None:
      score = round(0.6 * score + 0.4 * iffy_score, 2)
  tier1[e["domain"]] = {"s": round(score, 2), "c": e["category"][0], "n": len(e["sources"])}
  \<close>
\<close>

definition step_merge_row :: "entry \<Rightarrow> py_error + compact" where
  "step_merge_row e =
     (let score = dict_get CREDIBILITY_SCORES (category e) 0.5;
          score = (case get_opt (iffy_score e) of
                     None \<Rightarrow> score
                   | Some iffy \<Rightarrow> py_round (0.6 * score + 0.4 * iffy) 2)
      in case first_letter (category e) of
           Inl err \<Rightarrow> Inl err
         | Inr ch \<Rightarrow>
             Inr \<lparr> compact_s = py_round score 2, compact_c = ch,
                   compact_n = length (sources e), compact_r = None, compact_a = None \<rparr>)"

text \<open>
  \<open>step_merge\<close> on the two raw inputs, already read from their files: the merged list and the
  compact dataset.
\<close>

definition step_merge ::
  "(string \<Rightarrow> real option) \<Rightarrow> (string \<Rightarrow> int option) \<Rightarrow> (string dict) dict \<Rightarrow> (string dict) list
     \<Rightarrow> py_error + (entry list \<times> compact dict)" where
  "step_merge py_float py_int opensources_raw iffy_rows =
     (let opensources = parse_opensources opensources_raw;
          iffy = parse_iffy py_float py_int iffy_rows;
          merged = merge_entries opensources iffy
      in case build_tier1 step_merge_row merged [] of
           Inl err \<Rightarrow> Inl err
         | Inr tier1 \<Rightarrow> Inr (merged, tier1))"

section \<open>The scoring engine (step\_score, enrich\_dataset.py)\<close>

definition CATEGORY_SCORES :: "real dict" where
  "CATEGORY_SCORES =
    [(''reliable'', 1.0),
     (''mostly_reliable'', 0.8),
     (''mixed'', 0.5),
     (''satire'', 0.3),
     (''other'', 0.5),
     (''unreliable'', 0.2),
     (''conspiracy'', 0.1),
     (''fake'', 0.0)]"

text \<open>
  The three signal transforms, named after the local variables of \<open>step_score\<close>:
  \<^verbatim>\<open>
  tranco_signal = max(0.0, 1.0 - (math.log10(max(tranco, 1)) / 6.0))
  age_signal = min(1.0, age / 20.0)
  fc_signal = max(0.0, 1.0 - (math.log10(max(fc_claims, 1)) / 1.7))
  \<close>
\<close>

definition tranco_signal :: "int \<Rightarrow> real" where
  "tranco_signal tranco = max 0 (1 - log 10 (of_int (max tranco 1)) / 6)"

definition age_signal :: "real \<Rightarrow> real" where
  "age_signal age = min 1 (age / 20)"

definition fc_signal :: "int \<Rightarrow> real" where
  "fc_signal fc_claims = max 0 (1 - log 10 (of_int (max fc_claims 1)) / 1.7)"

text \<open>One optional term of the weighted blend: \<open>if x is not None: weighted_sum += w * x; weights_total += w\<close>.\<close>

definition add_signal :: "real \<Rightarrow> real option \<Rightarrow> real \<times> real \<Rightarrow> real \<times> real" where
  "add_signal w signal acc =
     (case signal of
        None \<Rightarrow> acc
      | Some x \<Rightarrow> (fst acc + w * x, snd acc + w))"

text \<open>
  The body of the loop \<open>for entry in entries\<close>. The module never imports \<open>math\<close>; the
  only import is the statement \<open>import math\<close> inside the branch \<open>if tranco is not None\<close>,
  which makes \<open>math\<close> a local variable of \<open>step_score\<close>, bound from the first entry on
  that has a rank. The flag \<open>math\<close> says whether that has happened; the fact-check branch
  reads \<open>math.log10\<close> and raises \<open>UnboundLocalError\<close> when it has not.
\<close>

definition score_entry :: "bool \<Rightarrow> entry \<Rightarrow> py_error + (bool \<times> entry)" where
  "score_entry math entry =
     (let cat_score = dict_get CATEGORY_SCORES (category entry) 0.5;
          iffy = get_opt (iffy_score entry);
          tranco = tranco_rank entry;
          math = (math \<or> tranco \<noteq> None);
          tranco_sig = map_option tranco_signal tranco;
          age_sig = map_option age_signal (domain_age_years entry);
          fc_claims = (case factcheck_claims entry of None \<Rightarrow> 0 | Some k \<Rightarrow> k)
      in if 0 < fc_claims \<and> \<not> math then Inl UnboundLocalError
         else
          (let fc_sig = (if 0 < fc_claims then Some (fc_signal fc_claims) else None);
               sb_flagged = (case safe_browsing_flagged entry of None \<Rightarrow> False | Some b \<Rightarrow> b);
               acc = (0.50 * cat_score, 0.50);
               acc = add_signal 0.15 iffy acc;
               acc = add_signal 0.05 tranco_sig acc;
               acc = add_signal 0.05 age_sig acc;
               acc = add_signal 0.15 fc_sig acc;
               weighted_sum = (if snd acc < 1 then fst acc + (1 - snd acc) * cat_score
                               else fst acc);
               score = weighted_sum;
               score = (if sb_flagged then min score 0.05 else score)
           in Inr (math,
                entry \<lparr> credibility_score := Some (py_round score 3),
                        score_components := Some
                          \<lparr> comp_category = py_round cat_score 2,
                            comp_iffy = map_option (\<lambda>x. py_round x 2) iffy,
                            comp_tranco = map_option (\<lambda>x. py_round x 2) tranco_sig,
                            comp_age = map_option (\<lambda>x. py_round x 2) age_sig,
                            comp_factcheck = map_option (\<lambda>x. py_round x 2) fc_sig,
                            comp_safe_browsing =
                              (if sb_flagged then Some ''flagged'' else None) \<rparr> \<rparr>)))"

fun score_loop :: "bool \<Rightarrow> entry list \<Rightarrow> py_error + entry list" where
  "score_loop math [] = Inr []"
| "score_loop math (entry # entries) =
     (case score_entry math entry of
        Inl err \<Rightarrow> Inl err
      | Inr (math', entry') \<Rightarrow>
          (case score_loop math' entries of
             Inl err \<Rightarrow> Inl err
           | Inr entries' \<Rightarrow> Inr (entry' # entries')))"

text \<open>
  \<^verbatim>\<open>
  tier1[e["domain"]] = {"s": round(e["credibility_score"], 2), "c": e["category"][0],
                        "n": len(e["sources"])}
  if "tranco_rank" in e: tier1[e["domain"]]["r"] = e["tranco_rank"]
  if "domain_age_years" in e: tier1[e["domain"]]["a"] = round(e["domain_age_years"], 1)
  \<close>
  Every entry has its \<open>credibility_score\<close> here, the loop before having set it; the default
  \<open>0\<close> is never read.
\<close>

definition step_score_row :: "entry \<Rightarrow> py_error + compact" where
  "step_score_row e =
     (case first_letter (category e) of
        Inl err \<Rightarrow> Inl err
      | Inr ch \<Rightarrow>
          Inr \<lparr> compact_s = py_round (case credibility_score e of None \<Rightarrow> 0 | Some x \<Rightarrow> x) 2,
                compact_c = ch,
                compact_n = length (sources e),
                compact_r = tranco_rank e,
                compact_a = map_option (\<lambda>x. py_round x 1) (domain_age_years e) \<rparr>)"

text \<open>
  \<open>step_score\<close>: the scoring loop, the score statistics (\<open>min(scores)\<close> raises
  \<open>ValueError\<close> on an empty list) and the compact dataset.
\<close>

definition step_score :: "entry list \<Rightarrow> py_error + (entry list \<times> compact dict)" where
  "step_score entries =
     (case score_loop False entries of
        Inl err \<Rightarrow> Inl err
      | Inr scored \<Rightarrow>
          if scored = [] then Inl ValueError
          else (case build_tier1 step_score_row scored [] of
                  Inl err \<Rightarrow> Inl err
                | Inr tier1 \<Rightarrow> Inr (scored, tier1)))"

section \<open>The consumer's category table (examples/usage.py)\<close>

definition CATEGORIES :: "(char \<times> string) list" where
  "CATEGORIES =
    [(CHR ''f'', ''fake''),
     (CHR ''u'', ''unreliable''),
     (CHR ''m'', ''mixed''),
     (CHR ''c'', ''conspiracy''),
     (CHR ''s'', ''satire''),
     (CHR ''r'', ''reliable''),
     (CHR ''o'', ''other'')]"

section \<open>Enrichment drivers and their caches (enrich\_dataset.py)\<close>

text \<open>\<open>s.split(sep)\<close> for a one-character separator, and \<open>sep.join(parts)\<close>.\<close>

fun split :: "char \<Rightarrow> string \<Rightarrow> string list" where
  "split sep [] = [[]]"
| "split sep (x # xs) =
     (if x = sep then [] # split sep xs
      else (case split sep xs of [] \<Rightarrow> [[x]] | w # ws \<Rightarrow> (x # w) # ws))"

definition join :: "string \<Rightarrow> string list \<Rightarrow> string" where
  "join sep parts = (case parts of [] \<Rightarrow> [] | p # ps \<Rightarrow> p @ concat (map (\<lambda>q. sep @ q) ps))"

text \<open>\<open>parts[-n:]\<close>\<close>

definition last_parts :: "nat \<Rightarrow> 'a list \<Rightarrow> 'a list" where
  "last_parts n parts = drop (length parts - n) parts"

definition two_level :: "string list" where
  "two_level =
     [''co.uk'', ''com.au'', ''co.nz'', ''co.za'', ''com.br'', ''co.in'', ''org.uk'', ''net.au'']"

definition get_base_domain :: "string \<Rightarrow> string" where
  "get_base_domain domain_str =
     (let parts = split (CHR ''.'') domain_str
      in if 3 \<le> length parts \<and> join ''.'' (last_parts 2 parts) \<in> set two_level
         then join ''.'' (last_parts 3 parts)
         else if 2 \<le> length parts then join ''.'' (last_parts 2 parts) else domain_str)"

subsection \<open>RDAP: domain age\<close>

text \<open>
  A cached RDAP result is the dictionary \<open>query_rdap\<close> returned (up to three dates) or the
  error marker \<open>{"error": True}\<close>. \<open>query_rdap\<close> itself is the external query: a parameter
  \<open>query n key\<close>, where \<open>n\<close> counts the queries made before this one in the run, so that
  the provider may answer the same key differently each time; \<open>None\<close> is its Python
  \<open>None\<close> (an error or an empty answer). The steps return, with the entries, the final cache
  and the list of keys they queried, in order.
\<close>

record rdap_result =
  rdap_error :: bool
  registered :: "string option"
  expires :: "string option"
  updated :: "string option"

definition rdap_error_marker :: rdap_result where
  "rdap_error_marker = \<lparr> rdap_error = True, registered = None, expires = None, updated = None \<rparr>"

definition rdap_to_query :: "rdap_result dict \<Rightarrow> entry list \<Rightarrow> int \<Rightarrow> entry list" where
  "rdap_to_query cache entries limit =
     (let to_query = filter (\<lambda>entry. map_of cache (get_base_domain (domain entry)) = None) entries
      in if 0 < limit then take (nat limit) to_query else to_query)"

fun rdap_query_loop ::
  "(nat \<Rightarrow> string \<Rightarrow> rdap_result option) \<Rightarrow> entry list \<Rightarrow> rdap_result dict \<times> string list
     \<Rightarrow> rdap_result dict \<times> string list" where
  "rdap_query_loop query [] st = st"
| "rdap_query_loop query (entry # to_query) (cache, queried) =
     (let base = get_base_domain (domain entry)
      in if map_of cache base \<noteq> None then rdap_query_loop query to_query (cache, queried)
         else
           (let result = query (length queried) base;
                cache = AList.update base
                          (case result of Some r \<Rightarrow> r | None \<Rightarrow> rdap_error_marker) cache
            in rdap_query_loop query to_query (cache, queried @ [base])))"

text \<open>
  Applying the cache to one entry. The clock \<open>now\<close> (\<open>datetime.now(timezone.utc)\<close>) and the
  registration instants are in seconds; \<open>reg_time\<close> is \<open>datetime.fromisoformat\<close> on the
  stored string, \<open>None\<close> when it or the subtraction raises \<open>ValueError\<close> or \<open>TypeError\<close>,
  which the step catches. \<open>(now - reg_date).days\<close> is the floor of the difference in days.
  \<^verbatim>\<open>
  rdap = cache.get(base, {})
  if rdap.get("error"): continue
  reg = rdap.get("registered")
  if reg:
      try:
          reg_date = datetime.fromisoformat(reg.replace("Z", "+00:00"))
          age_years = (now - reg_date).days / 365.25
          entry["domain_age_years"] = round(age_years, 1)
          entry["domain_registered"] = reg
      except (ValueError, TypeError): pass
  \<close>
\<close>

definition rdap_apply :: "(string \<Rightarrow> int option) \<Rightarrow> int \<Rightarrow> rdap_result dict \<Rightarrow> entry \<Rightarrow> entry" where
  "rdap_apply reg_time now cache entry =
     (case map_of cache (get_base_domain (domain entry)) of
        None \<Rightarrow> entry
      | Some rdap \<Rightarrow>
          if rdap_error rdap then entry
          else (case registered rdap of
                  None \<Rightarrow> entry
                | Some reg \<Rightarrow>
                    if reg = [] then entry
                    else (case reg_time reg of
                            None \<Rightarrow> entry
                          | Some reg_date \<Rightarrow>
                              entry \<lparr> domain_age_years :=
                                        Some (py_round (of_int ((now - reg_date) div 86400) / 365.25) 1),
                                      domain_registered := Some reg \<rparr>)))"

text \<open>
  \<open>step_rdap(entries, limit)\<close>. The cache file is \<open>None\<close> when it does not exist; it is
  rewritten only when there was something to query. The progress line divides by
  \<open>len(entries)\<close>: \<open>ZeroDivisionError\<close> on an empty list.
\<close>

definition step_rdap ::
  "(nat \<Rightarrow> string \<Rightarrow> rdap_result option) \<Rightarrow> (string \<Rightarrow> int option) \<Rightarrow> int
     \<Rightarrow> rdap_result dict option \<Rightarrow> entry list \<Rightarrow> int
     \<Rightarrow> py_error + (entry list \<times> rdap_result dict option \<times> string list)" where
  "step_rdap query reg_time now cache_file entries limit =
     (let cache = (case cache_file of None \<Rightarrow> [] | Some c \<Rightarrow> c);
          to_query = rdap_to_query cache entries limit;
          (cache, queried) = rdap_query_loop query to_query (cache, []);
          cache_file = (if to_query \<noteq> [] then Some cache else cache_file);
          entries' = map (rdap_apply reg_time now cache) entries
      in if entries = [] then Inl ZeroDivisionError
         else Inr (entries', cache_file, queried))"

subsection \<open>Fact-check claim counts\<close>

text \<open>
  What \<open>query_factcheck\<close> returns, and the cache stores:
  \<open>{"claim_count": n, "error": False}\<close>, \<open>{"claim_count": 0, "error": True}\<close> or
  \<open>{"error": "rate_limit"}\<close>.
\<close>

datatype fc_result = FcClaims int | FcFailed | FcRateLimit

text \<open>\<open>cached.get("claim_count", 0)\<close>\<close>

definition claim_count :: "fc_result option \<Rightarrow> int" where
  "claim_count cached =
     (case cached of
        Some (FcClaims n) \<Rightarrow> n
      | Some FcFailed \<Rightarrow> 0
      | Some FcRateLimit \<Rightarrow> 0
      | None \<Rightarrow> 0)"

definition factcheck_to_query :: "fc_result dict \<Rightarrow> entry list \<Rightarrow> int \<Rightarrow> entry list" where
  "factcheck_to_query cache entries limit =
     (let to_query = filter (\<lambda>e. map_of cache (domain e) = None) entries
      in if 0 < limit then take (nat limit) to_query else to_query)"

text \<open>
  \<^verbatim>\<open>
  result = query_factcheck(d, api_key)
  if result.get("error") == "rate_limit":
      time.sleep(60)
      result = query_factcheck(d, api_key)
  cache[d] = result
  \<close>
\<close>

fun factcheck_query_loop ::
  "(nat \<Rightarrow> string \<Rightarrow> fc_result) \<Rightarrow> entry list \<Rightarrow> fc_result dict \<times> string list
     \<Rightarrow> fc_result dict \<times> string list" where
  "factcheck_query_loop query [] st = st"
| "factcheck_query_loop query (entry # to_query) (cache, queried) =
     (let d = domain entry
      in if map_of cache d \<noteq> None then factcheck_query_loop query to_query (cache, queried)
         else
           (let result = query (length queried) d;
                queried = queried @ [d];
                (result, queried) =
                   (if result = FcRateLimit then (query (length queried) d, queried @ [d])
                    else (result, queried))
            in factcheck_query_loop query to_query (AList.update d result cache, queried)))"

definition factcheck_apply :: "fc_result dict \<Rightarrow> entry \<Rightarrow> entry" where
  "factcheck_apply cache entry =
     (let count = claim_count (map_of cache (domain entry))
      in if 0 < count then entry \<lparr> factcheck_claims := Some count \<rparr> else entry)"

text \<open>
  \<open>step_factcheck(entries, limit)\<close>. \<open>api_key\<close> is the outcome of \<open>get_google_api_key()\<close>,
  which ends the process (\<open>sys.exit(1)\<close>) when no key is configured.
\<close>

definition step_factcheck ::
  "(nat \<Rightarrow> string \<Rightarrow> fc_result) \<Rightarrow> string option \<Rightarrow> fc_result dict option \<Rightarrow> entry list \<Rightarrow> int
     \<Rightarrow> py_error + (entry list \<times> fc_result dict option \<times> string list)" where
  "step_factcheck query api_key cache_file entries limit =
     (case api_key of
        None \<Rightarrow> Inl SystemExit
      | Some key \<Rightarrow>
          (let cache = (case cache_file of None \<Rightarrow> [] | Some c \<Rightarrow> c);
               to_query = factcheck_to_query cache entries limit;
               (cache, queried) = factcheck_query_loop query to_query (cache, []);
               cache_file = (if to_query \<noteq> [] then Some cache else cache_file);
               entries' = map (factcheck_apply cache) entries
           in Inr (entries', cache_file, queried)))"

section \<open>Severity order, as the specification words it\<close>

text \<open>
  The specification's reading of "the highest-severity label contained in a set", for
  comparison with the loop \<^const>\<open>primary\<close>: the position of a label in the fixed order
  \<open>fake > conspiracy > unreliable > mixed > satire > other > mostly_reliable > reliable\<close>
  (a label outside the order ranks after all of them), and a label of the set that no
  other label of the set precedes.
\<close>

fun position :: "'a \<Rightarrow> 'a list \<Rightarrow> nat" where
  "position x [] = 0"
| "position x (y # ys) = (if y = x then 0 else Suc (position x ys))"

definition severity_rank :: "string \<Rightarrow> nat" where
  "severity_rank label = position label category_priority"

definition highest_severity :: "string set \<Rightarrow> string \<Rightarrow> bool" where
  "highest_severity labels label =
     (label \<in> labels \<and> (\<forall>l \<in> labels. severity_rank label \<le> severity_rank l))"

text \<open>
  The label an OpenSources entry stands for when none of its three type fields holds a
  label: the default \<open>other\<close> of the worst-wins loop.
\<close>

definition implicit_labels :: "entry option \<Rightarrow> string set" where
  "implicit_labels os_entry =
     (case os_entry of
        None \<Rightarrow> {}
      | Some e \<Rightarrow> if categories_all e = {} then {''other''} else {})"

text \<open>What the two parsers establish for each entry they store under a key.\<close>

definition opensources_ok :: "string \<Rightarrow> entry \<Rightarrow> bool" where
  "opensources_ok d e =
     (domain e = d \<and> category e \<in> set category_priority \<and>
      highest_severity (categories_all e \<union> implicit_labels (Some e)) (category e))"

definition iffy_ok :: "string \<Rightarrow> entry \<Rightarrow> bool" where
  "iffy_ok d e =
     (domain e = d \<and> category e \<in> set category_priority \<and> categories_all e = {category e})"

section \<open>The blend in named pieces\<close>

text \<open>
  The blend of one entry as \<open>score_entry\<close> computes it, before the cap and the rounding,
  in three named pieces; the lemma \<open>score_entry_Inr\<close> ties them to \<^const>\<open>score_entry\<close>.
\<close>

definition blend :: "entry \<Rightarrow> real \<times> real" where
  "blend entry =
     add_signal 0.15
       (case factcheck_claims entry of
          None \<Rightarrow> None
        | Some k \<Rightarrow> if 0 < k then Some (fc_signal k) else None)
       (add_signal 0.05 (map_option age_signal (domain_age_years entry))
          (add_signal 0.05 (map_option tranco_signal (tranco_rank entry))
             (add_signal 0.15 (get_opt (iffy_score entry))
                (0.50 * dict_get CATEGORY_SCORES (category entry) 0.5, 0.50))))"

definition weighted_sum :: "entry \<Rightarrow> real" where
  "weighted_sum entry =
     (if snd (blend entry) < 1
      then fst (blend entry) + (1 - snd (blend entry)) * dict_get CATEGORY_SCORES (category entry) 0.5
      else fst (blend entry))"

definition sb_flagged :: "entry \<Rightarrow> bool" where
  "sb_flagged entry = (case safe_browsing_flagged entry of None \<Rightarrow> False | Some b \<Rightarrow> b)"

text \<open>The weighted sum never exceeds the weight collected so far.\<close>

definition blend_ok :: "real \<Rightarrow> real \<times> real \<Rightarrow> bool" where
  "blend_ok bound acc = (0 \<le> fst acc \<and> fst acc \<le> snd acc \<and> snd acc \<le> bound)"


section \<open>Properties of the normalizer\<close>

lemma lower_char_idem: "lower_char (lower_char c) = lower_char c"
proof (cases "CHR ''A'' \<le> c \<and> c \<le> CHR ''Z''")
  case True
  then have r: "65 \<le> (of_char c :: nat)" "(of_char c :: nat) \<le> 90"
    by (simp_all add: less_eq_char_def)
  have "(of_char (char_of (of_char c + (32::nat))) :: nat) = (of_char c + 32) mod 256"
    by simp
  also have "\<dots> = of_char c + 32" using r by simp
  finally have "\<not> (char_of (of_char c + (32::nat)) \<le> CHR ''Z'')"
    using r unfolding less_eq_char_def by simp
  then show ?thesis unfolding lower_char_def by presburger
next
  case False
  then show ?thesis unfolding lower_char_def by presburger
qed

lemma dw_fix_iff: "dropWhile P t = t \<longleftrightarrow> (case t of [] \<Rightarrow> True | c # _ \<Rightarrow> \<not> P c)"
proof (cases t)
  case Nil
  then show ?thesis by simp
next
  case (Cons a l)
  have "length (dropWhile P l) \<le> length l" by (rule length_dropWhile_le)
  then have "dropWhile P l \<noteq> a # l" by auto
  with Cons show ?thesis by simp
qed

lemma rfix_iff: "rev (dropWhile P (rev s)) = s \<longleftrightarrow> (case rev s of [] \<Rightarrow> True | c # _ \<Rightarrow> \<not> P c)"
proof -
  have "rev (dropWhile P (rev s)) = s \<longleftrightarrow> dropWhile P (rev s) = rev s"
    by (metis rev_rev_ident)
  then show ?thesis
    by (simp only: dw_fix_iff)
qed

lemma dropWhile_len_fix: "length (dropWhile P s) = length s \<Longrightarrow> dropWhile P s = s"
  by (metis append_eq_conv_conj length_0_conv length_append add_cancel_left_left takeWhile_dropWhile_id self_append_conv2)

lemma rdrop_len_fix: "length (rev (dropWhile P (rev s))) = length s \<Longrightarrow> rev (dropWhile P (rev s)) = s"
  using dropWhile_len_fix[of P "rev s"] by simp

lemma rdrop_len: "length (rev (dropWhile P (rev s))) \<le> length s"
  using length_dropWhile_le[of P "rev s"] by simp


lemma strip_len: "length (strip s) \<le> length s"
  unfolding strip_def rstrip_ws_def
  using rdrop_len[of is_space "dropWhile is_space s"] length_dropWhile_le[of is_space s] by linarith

lemma strip_fix_iff:
  "strip s = s \<longleftrightarrow>
     (case s of [] \<Rightarrow> True | c # _ \<Rightarrow> \<not> is_space c) \<and> (case rev s of [] \<Rightarrow> True | c # _ \<Rightarrow> \<not> is_space c)"
proof
  assume h: "strip s = s"
  have "length (dropWhile is_space s) = length s"
    using rdrop_len[of is_space "dropWhile is_space s"] length_dropWhile_le[of is_space s] h
    unfolding strip_def rstrip_ws_def by (metis le_antisym)
  then have a: "dropWhile is_space s = s" by (rule dropWhile_len_fix)
  with h have b: "rev (dropWhile is_space (rev s)) = s"
    by (simp add: strip_def rstrip_ws_def)
  from a b show "(case s of [] \<Rightarrow> True | c # _ \<Rightarrow> \<not> is_space c) \<and> (case rev s of [] \<Rightarrow> True | c # _ \<Rightarrow> \<not> is_space c)"
    by (simp only: dw_fix_iff rfix_iff)
next
  assume "(case s of [] \<Rightarrow> True | c # _ \<Rightarrow> \<not> is_space c) \<and> (case rev s of [] \<Rightarrow> True | c # _ \<Rightarrow> \<not> is_space c)"
  then have "dropWhile is_space s = s" "rev (dropWhile is_space (rev s)) = s"
    by (simp_all only: dw_fix_iff rfix_iff)
  then show "strip s = s" by (simp add: strip_def rstrip_ws_def)
qed

lemma rstrip_len: "length (rstrip c s) \<le> length s"
  unfolding rstrip_def by (rule rdrop_len)

lemma rstrip_len_fix: "length (rstrip c s) = length s \<Longrightarrow> rstrip c s = s"
  unfolding rstrip_def by (rule rdrop_len_fix)

lemma rstrip_fix_iff: "rstrip c s = s \<longleftrightarrow> (case rev s of [] \<Rightarrow> True | x # _ \<Rightarrow> x \<noteq> c)"
  unfolding rstrip_def by (rule rfix_iff)

lemma strip_len_fix: "length (strip s) = length s \<Longrightarrow> strip s = s"
proof -
  assume h: "length (strip s) = length s"
  have "length (dropWhile is_space s) = length s"
    using rdrop_len[of is_space "dropWhile is_space s"] length_dropWhile_le[of is_space s] h
    unfolding strip_def rstrip_ws_def by linarith
  then have a: "dropWhile is_space s = s" by (rule dropWhile_len_fix)
  with h have "rev (dropWhile is_space (rev s)) = s"
    unfolding strip_def rstrip_ws_def by (simp add: rdrop_len_fix)
  with a show ?thesis by (simp add: strip_def rstrip_ws_def)
qed

lemma set_rdrop: "set (rev (dropWhile P (rev s))) \<subseteq> set s"
  using set_dropWhileD[of _ P "rev s"] by auto

lemma set_strip: "set (strip s) \<subseteq> set s"
  unfolding strip_def rstrip_ws_def
  using set_rdrop[of is_space "dropWhile is_space s"] set_dropWhileD[of _ is_space s] by blast

lemma set_normalize_domain: "set (normalize_domain x) \<subseteq> set (lower x)"
proof -
  let ?d = "rstrip (CHR ''.'') (rstrip (CHR ''/'') (strip (lower x)))"
  have "set ?d \<subseteq> set (lower x)"
    unfolding rstrip_def
    using set_rdrop[of "\<lambda>x. x = CHR ''.''" "rev (dropWhile (\<lambda>x. x = CHR ''/'') (rev (strip (lower x))))"]
      set_rdrop[of "\<lambda>x. x = CHR ''/''" "strip (lower x)"] set_strip[of "lower x"] by blast
  moreover have "set (drop 4 ?d) \<subseteq> set ?d" by (rule set_drop_subset)
  ultimately show ?thesis
    unfolding normalize_domain_def Let_def by (simp only: split: if_split) blast
qed

lemma lower_normalize_domain: "lower (normalize_domain x) = normalize_domain x"
proof -
  have "\<forall>c \<in> set (normalize_domain x). lower_char c = c"
    using set_normalize_domain[of x] by (auto simp: lower_def lower_char_idem)
  then show ?thesis unfolding lower_def by (simp add: map_idI)
qed

lemma normalize_domain_last: "case rev (normalize_domain x) of [] \<Rightarrow> True | c # _ \<Rightarrow> c \<noteq> CHR ''.''"
proof -
  let ?d = "rstrip (CHR ''.'') (rstrip (CHR ''/'') (strip (lower x)))"
  have "rstrip (CHR ''.'') ?d = ?d"
    unfolding rstrip_def by simp
  then have d: "case rev ?d of [] \<Rightarrow> True | c # _ \<Rightarrow> c \<noteq> CHR ''.''"
    by (simp only: rstrip_fix_iff)
  have "case rev (drop 4 ?d) of [] \<Rightarrow> True | c # _ \<Rightarrow> c \<noteq> CHR ''.''"
    using d by (cases "rev ?d") (auto simp: rev_drop take_Cons' split: list.splits if_splits)
  with d show ?thesis
    unfolding normalize_domain_def Let_def by (simp only: split: if_split) blast
qed

lemma normalize_domain_fix_iff:
  assumes low: "lower y = y"
  shows "normalize_domain y = y \<longleftrightarrow> stable_domain y"
proof
  assume st: "stable_domain y"
  then have "strip y = y"
    by (simp add: strip_fix_iff stable_domain_def split: list.splits)
  moreover have "rstrip (CHR ''/'') y = y" "rstrip (CHR ''.'') y = y"
    using st by (simp_all add: rstrip_fix_iff stable_domain_def split: list.splits)
  ultimately show "normalize_domain y = y"
    using st low by (simp add: normalize_domain_def stable_domain_def)
next
  assume fx: "normalize_domain y = y"
  let ?s1 = "strip y"
  let ?s2 = "rstrip (CHR ''/'') ?s1"
  let ?d = "rstrip (CHR ''.'') ?s2"
  have l1: "length ?s1 \<le> length y" by (rule strip_len)
  have l2: "length ?s2 \<le> length ?s1" by (rule rstrip_len)
  have l3: "length ?d \<le> length ?s2" by (rule rstrip_len)
  have nd: "normalize_domain y = (if startswith ?d ''www.'' then drop 4 ?d else ?d)"
    using low by (simp add: normalize_domain_def)
  have nw: "\<not> startswith ?d ''www.''"
  proof
    assume w: "startswith ?d ''www.''"
    then have "take (length ''www.'') ?d = ''www.''" unfolding startswith_def .
    then have "length (take (length ''www.'') ?d) = length ''www.''" by (rule arg_cong)
    then have "4 \<le> length ?d" by simp
    moreover have "length y = length ?d - 4" using fx nd w by (metis length_drop)
    ultimately show False using l1 l2 l3 by linarith
  qed
  then have dy: "?d = y" using fx nd by simp
  then have e3: "length ?d = length ?s2" and e2: "length ?s2 = length ?s1" and e1: "length ?s1 = length y"
    using l1 l2 l3 by simp_all
  have s1: "?s1 = y" using e1 by (rule strip_len_fix)
  have s2: "rstrip (CHR ''/'') y = y" using e2 s1 by (simp add: rstrip_len_fix)
  have s3: "rstrip (CHR ''.'') y = y" using dy s1 s2 by simp
  show "stable_domain y"
    using nw dy s1 s2 s3 unfolding stable_domain_def
    by (auto simp: strip_fix_iff rstrip_fix_iff split: list.splits)
qed


text \<open>
  Claim C2 (as amended). The normalizer is not idempotent on every input: it removes one
  \<open>www.\<close> prefix and strips each kind of trailing character once, in a fixed order, so
  its result can still carry a \<open>www.\<close> prefix, surrounding whitespace or a trailing
  \<open>/\<close>. Normalizing a second time changes nothing exactly when the first result is
  stable: \<open>normalize(normalize(x)) = normalize(x)\<close> holds if and only if
  \<open>normalize(x)\<close> does not start with \<open>www.\<close>, does not start or end with whitespace and
  does not end with \<open>/\<close> or \<open>.\<close>.
\<close>

theorem normalize_domain_idempotent_iff:
  "normalize_domain (normalize_domain x) = normalize_domain x
     \<longleftrightarrow> stable_domain (normalize_domain x)"
  by (rule normalize_domain_fix_iff) (rule lower_normalize_domain)

theorem normalize_domain_idempotent_iff_witness:
  "normalize_domain (normalize_domain ''  WWW.Example.com/ '') = normalize_domain ''  WWW.Example.com/ ''
   \<and> stable_domain (normalize_domain ''  WWW.Example.com/ '')
   \<and> normalize_domain ''  WWW.Example.com/ '' = ''example.com''"
  using normalize_domain_idempotent_iff [of "''  WWW.Example.com/ ''"] by code_simp

text \<open>
  Claim C2 as stated fails: a doubled \<open>www.\<close> prefix loses one copy per pass, and a
  \<open>/\<close> hidden behind a trailing \<open>.\<close> survives the first pass.
\<close>

theorem normalize_domain_not_idempotent:
  "normalize_domain ''www.www.example.com'' = ''www.example.com''
   \<and> normalize_domain (normalize_domain ''www.www.example.com'') = ''example.com''
   \<and> normalize_domain ''example.com/.'' = ''example.com/''
   \<and> normalize_domain (normalize_domain ''example.com/.'') = ''example.com''"
  by code_simp

text \<open>
  Claim C8. The consumer's \<open>check_domain\<close> lowercases, trims and strips trailing \<open>/\<close> and one
  \<open>www.\<close> prefix, but never strips a trailing \<open>.\<close> as \<open>normalize_domain\<close> does: on
  \<open>example.com.\<close> it looks up the key \<open>example.com.\<close>, while the builder stored the
  domain under \<open>example.com\<close>, so the lookup misses a domain that is in the dataset.
\<close>

theorem check_domain_keeps_trailing_dot:
  "check_domain Some ''example.com.'' = Some ''example.com.''
   \<and> normalize_domain ''example.com.'' = ''example.com''
   \<and> check_domain [normalize_domain ''example.com.'' \<mapsto> (0.2::real)] ''example.com.'' = None
   \<and> check_domain [normalize_domain ''example.com.'' \<mapsto> (0.2::real)] ''example.com'' = Some 0.2"
  by code_simp

section \<open>Label tables\<close>







section \<open>The compact category letter: one record\<close>

text \<open>
  The Iffy row rated \<open>MH\<close> becomes a record of category \<open>mostly_reliable\<close>, is written
  with the letter \<open>m\<close> by \<open>step_merge\<close> and by \<open>step_score\<close>, and \<open>m\<close> is what
  \<open>mixed\<close> is written with and what the consumer's table reads as \<open>mixed\<close>.
\<close>

lemma category_letter_example:
  "first_letter ''mixed'' = Inr (CHR ''m'')
   \<and> first_letter ''mostly_reliable'' = Inr (CHR ''m'')
   \<and> ''mixed'' \<noteq> ''mostly_reliable''
   \<and> map_of CATEGORIES (CHR ''m'') = Some ''mixed''
   \<and> (case step_merge (\<lambda>_. None) (\<lambda>_. None) [] [[(''Domain'', ''example.com''), (''MBFC Fact'', ''MH'')]] of
        Inl err \<Rightarrow> False
      | Inr (merged, tier1) \<Rightarrow>
          map category merged = [''mostly_reliable'']
          \<and> map_option compact_c (map_of tier1 ''example.com'') = Some (CHR ''m'')
          \<and> (case step_score merged of
                Inl err \<Rightarrow> False
              | Inr (scored, tier1') \<Rightarrow>
                  map category scored = [''mostly_reliable'']
                  \<and> map_option compact_c (map_of tier1' ''example.com'') = Some (CHR ''m'')))"
  by (simp add: first_letter_def CATEGORIES_def step_merge_def parse_opensources_def parse_iffy_def
      merge_entries_def all_domains_def merge_one_def iffy_entry_def iffy_category_def dict_get_def
      IFFY_FACTUAL_MAP_def new_entry_def normalize_domain_def strip_def rstrip_ws_def rstrip_def
      lower_def lower_char_def is_space_def startswith_def step_merge_row_def get_opt_def
      CREDIBILITY_SCORES_def py_round_def parse_cell_def List.map_filter_simps
      step_score_def score_entry_def CATEGORY_SCORES_def add_signal_def step_score_row_def Let_def)

section \<open>Worst-wins resolution\<close>

lemma find_position:
  "find (\<lambda>c. c \<in> S) ps = Some c \<Longrightarrow> c \<in> S \<and> (\<forall>l \<in> S. position c ps \<le> position l ps)"
proof (induction ps)
  case Nil
  then show ?case by simp
next
  case (Cons p ps)
  show ?case
  proof (cases "p \<in> S")
    case True
    with Cons.prems show ?thesis by simp
  next
    case False
    with Cons.prems have f: "find (\<lambda>c. c \<in> S) ps = Some c" by simp
    from Cons.IH[OF f] False show ?thesis by auto
  qed
qed

lemma find_none_disjoint: "find (\<lambda>c. c \<in> S) ps = None \<Longrightarrow> S \<inter> set ps = {}"
  by (auto simp: find_None_iff)

lemma primary_highest:
  assumes "set types \<subseteq> set category_priority" "types \<noteq> []"
  shows "highest_severity (set types) (primary types)"
proof (cases "find (\<lambda>cat. cat \<in> set types) category_priority")
  case None
  then have "set types \<inter> set category_priority = {}" by (rule find_none_disjoint)
  with assms show ?thesis by (cases types) auto
next
  case (Some c)
  from find_position[OF Some] Some show ?thesis
    by (simp add: primary_def highest_severity_def severity_rank_def)
qed

lemma primary_in_priority: "primary types \<in> set category_priority"
proof (cases "find (\<lambda>cat. cat \<in> set types) category_priority")
  case None
  then show ?thesis by (simp add: primary_def category_priority_def)
next
  case (Some c)
  then have "c \<in> set category_priority" by (auto simp: find_Some_iff)
  with Some show ?thesis by (simp add: primary_def)
qed

lemma primary_Nil: "primary [] = ''other''"
  by (simp add: primary_def category_priority_def)

lemma highest_severity_single: "highest_severity {c} c"
  by (simp add: highest_severity_def)

lemma primary_pair:
  assumes "a \<in> set category_priority" "b \<in> set category_priority"
  shows "primary [a, b] \<in> {a, b}"
    and "severity_rank (primary [a, b]) \<le> severity_rank a"
    and "severity_rank (primary [a, b]) \<le> severity_rank b"
proof -
  have "highest_severity (set [a, b]) (primary [a, b])"
    using assms by (intro primary_highest) auto
  then show "primary [a, b] \<in> {a, b}"
    and "severity_rank (primary [a, b]) \<le> severity_rank a"
    and "severity_rank (primary [a, b]) \<le> severity_rank b"
    by (auto simp: highest_severity_def)
qed

lemma highest_severity_union:
  assumes A: "highest_severity A a" and B: "highest_severity B b"
    and a: "a \<in> set category_priority" and b: "b \<in> set category_priority"
  shows "highest_severity (A \<union> B) (primary [a, b])"
proof -
  note p = primary_pair[OF a b]
  have "primary [a, b] \<in> A \<union> B" using p(1) A B by (auto simp: highest_severity_def)
  moreover have "\<forall>l \<in> A \<union> B. severity_rank (primary [a, b]) \<le> severity_rank l"
    using p(2,3) A B unfolding highest_severity_def by (meson UnE le_trans)
  ultimately show ?thesis by (simp add: highest_severity_def)
qed

lemma opensources_mapped_priority:
  "set (opensources_mapped l) \<subseteq> set category_priority"
  by (auto simp: opensources_mapped_def Let_def dict_get_def OPENSOURCES_CATEGORY_MAP_def
      category_priority_def)

lemma opensources_types_priority: "set (opensources_types_of info) \<subseteq> set category_priority"
  using opensources_mapped_priority by (auto simp: opensources_types_of_def)

lemma opensources_entry_ok: "opensources_ok d (opensources_entry d info)"
proof -
  let ?types = "opensources_types_of info"
  have e: "domain (opensources_entry d info) = d"
    "category (opensources_entry d info) = primary ?types"
    "categories_all (opensources_entry d info) = set ?types"
    by (simp_all add: opensources_entry_def new_entry_def Let_def)
  show ?thesis
  proof (cases "?types = []")
    case True
    then show ?thesis
      using e by (simp add: opensources_ok_def implicit_labels_def primary_Nil highest_severity_single
          category_priority_def)
  next
    case False
    then have "highest_severity (set ?types) (primary ?types)"
      using opensources_types_priority by (intro primary_highest)
    then show ?thesis
      using e False by (simp add: opensources_ok_def implicit_labels_def primary_in_priority)
  qed
qed

lemma iffy_category_priority: "iffy_category f \<in> set category_priority"
  by (simp add: iffy_category_def dict_get_def IFFY_FACTUAL_MAP_def category_priority_def)

lemma iffy_entry_ok: "iffy_ok d (iffy_entry py_float py_int d row)"
  by (simp add: iffy_ok_def iffy_entry_def new_entry_def Let_def iffy_category_priority)

lemma map_of_update_cases:
  "map_of (AList.update k v al) d = Some e \<Longrightarrow> (d = k \<and> e = v) \<or> map_of al d = Some e"
  by (simp add: update_conv' split: if_splits)

lemma parse_opensources_fold_ok:
  assumes "\<And>d e. map_of acc d = Some e \<Longrightarrow> opensources_ok d e"
    and "map_of (fold (\<lambda>(domain, info) entries.
             let d = normalize_domain domain
             in if d = [] then entries else AList.update d (opensources_entry d info) entries)
          raw acc) d = Some e"
  shows "opensources_ok d e"
  using assms
proof (induction raw arbitrary: acc)
  case Nil
  then show ?case by simp
next
  case (Cons x raw)
  obtain dn info where x: "x = (dn, info)" by (cases x)
  let ?acc = "(let d = normalize_domain dn
             in if d = [] then acc else AList.update d (opensources_entry d info) acc)"
  have "\<And>d e. map_of ?acc d = Some e \<Longrightarrow> opensources_ok d e"
    using Cons.prems(1) opensources_entry_ok
    by (auto simp: Let_def dest!: map_of_update_cases split: if_splits)
  moreover have "map_of (fold (\<lambda>(domain, info) entries.
             let d = normalize_domain domain
             in if d = [] then entries else AList.update d (opensources_entry d info) entries)
          raw ?acc) d = Some e"
    using Cons.prems(2) x by simp
  ultimately show ?case by (rule Cons.IH)
qed

lemma parse_opensources_ok: "map_of (parse_opensources raw) d = Some e \<Longrightarrow> opensources_ok d e"
  unfolding parse_opensources_def by (rule parse_opensources_fold_ok[where acc="[]"]) simp_all

lemma parse_iffy_fold_ok:
  assumes "\<And>d e. map_of acc d = Some e \<Longrightarrow> iffy_ok d e"
    and "map_of (fold (\<lambda>row entries.
             let d = normalize_domain (dict_get row ''Domain'' [])
             in if d = [] then entries
                else AList.update d (iffy_entry py_float py_int d row) entries)
          rows acc) d = Some e"
  shows "iffy_ok d e"
  using assms
proof (induction rows arbitrary: acc)
  case Nil
  then show ?case by simp
next
  case (Cons row rows)
  let ?acc = "(let d = normalize_domain (dict_get row ''Domain'' [])
             in if d = [] then acc
                else AList.update d (iffy_entry py_float py_int d row) acc)"
  have "\<And>d e. map_of ?acc d = Some e \<Longrightarrow> iffy_ok d e"
    using Cons.prems(1) iffy_entry_ok
    by (auto simp: Let_def dest!: map_of_update_cases split: if_splits)
  moreover have "map_of (fold (\<lambda>row entries.
             let d = normalize_domain (dict_get row ''Domain'' [])
             in if d = [] then entries
                else AList.update d (iffy_entry py_float py_int d row) entries)
          rows ?acc) d = Some e"
    using Cons.prems(2) by simp
  ultimately show ?case by (rule Cons.IH)
qed

lemma parse_iffy_ok: "map_of (parse_iffy py_float py_int rows) d = Some e \<Longrightarrow> iffy_ok d e"
  unfolding parse_iffy_def by (rule parse_iffy_fold_ok[where acc="[]"]) simp_all

lemma merge_entries_member:
  "e \<in> set (merge_entries opensources iffy) \<Longrightarrow> \<exists>d. merge_one opensources iffy d = Some e"
  by (auto simp: merge_entries_def List.map_filter_def)

lemma merge_one_highest:
  assumes os: "\<And>d e. map_of opensources d = Some e \<Longrightarrow> opensources_ok d e"
    and iffy: "\<And>d e. map_of iffy d = Some e \<Longrightarrow> iffy_ok d e"
    and m: "merge_one opensources iffy d = Some e"
  shows "domain e = d \<and>
         highest_severity (categories_all e \<union> implicit_labels (map_of opensources d)) (category e)"
proof (cases "map_of opensources d")
  case None
  with m have i: "map_of iffy d = Some e" by (simp add: merge_one_def)
  from iffy[OF i] None show ?thesis
    by (simp add: iffy_ok_def implicit_labels_def highest_severity_single)
next
  case (Some oe)
  note o = os[OF Some]
  show ?thesis
  proof (cases "map_of iffy d")
    case None
    with m Some have "e = oe" by (simp add: merge_one_def)
    with o Some show ?thesis by (simp add: opensources_ok_def)
  next
    case (Some ie)
    note i = iffy[OF Some]
    from m Some \<open>map_of opensources d = Some oe\<close> have e: "e = merge_both d oe ie"
      by (simp add: merge_one_def)
    have "highest_severity ((categories_all oe \<union> implicit_labels (Some oe)) \<union> categories_all ie)
            (primary [category oe, category ie])"
      using o i by (intro highest_severity_union) (simp_all add: opensources_ok_def iffy_ok_def highest_severity_single)
    then show ?thesis
      using e \<open>map_of opensources d = Some oe\<close>
      by (simp add: merge_both_def new_entry_def Un_ac)
  qed
qed

text \<open>
  Claim C6 (as amended). \<open>category\<close> is the highest-severity label, in the fixed order, of
  \<open>categories_all\<close> together with the label \<open>other\<close> that an OpenSources entry stands
  for when none of its type fields holds a label. Such an entry has the category \<open>other\<close>
  and an empty \<open>categories_all\<close>, and merging it with an Iffy entry takes the worse of
  \<open>other\<close> and the Iffy category. For every other record (an Iffy entry, an OpenSources
  entry with a label, and their merge) \<open>category\<close> is the highest-severity label that
  \<open>categories_all\<close> contains.
\<close>

theorem category_highest_severity:
  "(\<forall>d e. map_of (parse_opensources raw) d = Some e \<longrightarrow>
       highest_severity (categories_all e \<union> implicit_labels (Some e)) (category e))
   \<and> (\<forall>d e. map_of (parse_iffy py_float py_int rows) d = Some e \<longrightarrow>
       highest_severity (categories_all e) (category e))
   \<and> (\<forall>e \<in> set (merge_entries (parse_opensources raw) (parse_iffy py_float py_int rows)).
       highest_severity
         (categories_all e \<union> implicit_labels (map_of (parse_opensources raw) (domain e)))
         (category e))"
proof -
  have a: "\<And>d e. map_of (parse_opensources raw) d = Some e \<Longrightarrow> opensources_ok d e"
    by (rule parse_opensources_ok)
  have b: "\<And>d e. map_of (parse_iffy py_float py_int rows) d = Some e \<Longrightarrow> iffy_ok d e"
    by (rule parse_iffy_ok)
  have c: "highest_severity
         (categories_all e \<union> implicit_labels (map_of (parse_opensources raw) (domain e)))
         (category e)"
    if "e \<in> set (merge_entries (parse_opensources raw) (parse_iffy py_float py_int rows))" for e
  proof -
    from that obtain d where "merge_one (parse_opensources raw) (parse_iffy py_float py_int rows) d = Some e"
      by (auto dest: merge_entries_member)
    from merge_one_highest[OF a b this] show ?thesis by simp
  qed
  show ?thesis
    using a b c by (auto simp: opensources_ok_def iffy_ok_def highest_severity_single)
qed

theorem category_highest_severity_witness:
  "(let opensources = parse_opensources
          [(''WWW.Example.com/'', [(''type'', ''bias''), (''2nd type'', ''fake'')]),
           (''blog.example.org'', [(''type'', ''blog'')])];
        merged = merge_entries opensources
          (parse_iffy (\<lambda>_. None) (\<lambda>_. None)
             [[(''Domain'', ''blog.example.org''), (''MBFC Fact'', ''H'')]])
    in map (\<lambda>e. (domain e, category e, categories_all e)) merged
         = [(''blog.example.org'', ''other'', {''other'', ''reliable''}),
            (''example.com'', ''fake'', {''mixed'', ''fake''})]
       \<and> list_all (\<lambda>e. highest_severity
                          (categories_all e \<union> implicit_labels (map_of opensources (domain e)))
                          (category e)) merged)"
proof -
  let ?raw = "[(''WWW.Example.com/'', [(''type'', ''bias''), (''2nd type'', ''fake'')]),
               (''blog.example.org'', [(''type'', ''blog'')])]"
  let ?rows = "[[(''Domain'', ''blog.example.org''), (''MBFC Fact'', ''H'')]]"
  let ?merged = "merge_entries (parse_opensources ?raw) (parse_iffy (\<lambda>_. None) (\<lambda>_. None) ?rows)"
  have "map (\<lambda>e. (domain e, category e, categories_all e)) ?merged
         = [(''blog.example.org'', ''other'', {''other'', ''reliable''}),
            (''example.com'', ''fake'', {''mixed'', ''fake''})]"
    by code_simp
  moreover have "list_all (\<lambda>e. highest_severity
                    (categories_all e \<union> implicit_labels (map_of (parse_opensources ?raw) (domain e)))
                    (category e)) ?merged"
    using category_highest_severity [of ?raw "\<lambda>_. None" "\<lambda>_. None" ?rows]
    unfolding list_all_iff by blast
  ultimately show ?thesis unfolding Let_def by (rule conjI)
qed

text \<open>
  Claim C6 as stated fails where OpenSources gives no label: the parsed record has the
  category \<open>other\<close> and no label at all, and merged with an Iffy record rated \<open>H\<close> it
  has the category \<open>other\<close> while \<open>categories_all\<close> holds only \<open>reliable\<close>.
\<close>

theorem category_outside_categories_all:
  "map (\<lambda>e. (category e, categories_all e)) (map snd (parse_opensources [(''example.com'', [])]))
     = [(''other'', {})]
   \<and> \<not> highest_severity {} ''other''
   \<and> map (\<lambda>e. (category e, categories_all e))
        (merge_entries (parse_opensources [(''example.com'', [])])
           (parse_iffy (\<lambda>_. None) (\<lambda>_. None) [[(''Domain'', ''example.com''), (''MBFC Fact'', ''H'')]]))
     = [(''other'', {''reliable''})]
   \<and> \<not> highest_severity {''reliable''} ''other''"
  by code_simp

section \<open>Order of the merge\<close>

lemma primary_set_cong: "set xs = set ys \<Longrightarrow> primary xs = primary ys"
  by (simp add: primary_def)

lemma all_domains_commute: "all_domains a b = all_domains b a"
  by (simp add: all_domains_def Un_commute)

lemma merge_one_present:
  "d \<in> set (all_domains a b) \<Longrightarrow> merge_one a b d \<noteq> None"
  by (auto simp: all_domains_def merge_one_def map_of_eq_None_iff split: option.splits
      dest: weak_map_of_SomeI)

lemma merge_entries_length: "length (merge_entries a b) = length (all_domains a b)"
proof -
  have "filter (\<lambda>d. merge_one a b d \<noteq> None) (all_domains a b) = all_domains a b"
    using merge_one_present by (intro filter_True) auto
  then show ?thesis by (simp add: merge_entries_def List.map_filter_def)
qed

lemma merge_one_single:
  "map_of a d = None \<or> map_of b d = None \<Longrightarrow> merge_one a b d = merge_one b a d"
  by (auto simp: merge_one_def split: option.splits)

lemma merge_one_core:
  "map_option (\<lambda>e. (domain e, category e, categories_all e, sources e)) (merge_one a b d)
     = map_option (\<lambda>e. (domain e, category e, categories_all e, sources e)) (merge_one b a d)"
proof (cases "map_of a d = None \<or> map_of b d = None")
  case True
  show ?thesis using merge_one_single[OF True] by simp
next
  case False
  then obtain x y where "map_of a d = Some x" "map_of b d = Some y" by auto
  moreover have "primary [category x, category y] = primary [category y, category x]"
    by (rule primary_set_cong) auto
  ultimately show ?thesis
    by (simp add: merge_one_def merge_both_def new_entry_def Un_commute)
qed

lemma map_map_filter: "map f (List.map_filter g xs) = List.map_filter (\<lambda>x. map_option f (g x)) xs"
  by (induction xs) (auto split: option.splits)

lemma merge_one_empty_right: "merge_one a [] d = map_of a d"
  by (simp add: merge_one_def split: option.splits)

lemma merge_one_empty_left: "merge_one [] b d = map_of b d"
  by (simp add: merge_one_def)

text \<open>
  Claim C4 (as amended). Swapping the two arguments of \<open>merge_entries\<close> keeps the list of
  domains and, record by record, the \<open>domain\<close>, \<open>category\<close>, \<open>categories_all\<close> and
  \<open>sources\<close>; a domain that only one of the maps holds gives the same record in both
  orders. Merging with an empty map, on either side, returns the entries of the other map in
  the order of their keys. (The metadata of a domain in both maps is taken by position:
  the \<open>iffy_*\<close> keys from the second argument's entry, \<open>opensources_types\<close> from the
  first's.)
\<close>

theorem merge_entries_swap:
  "map (\<lambda>e. (domain e, category e, categories_all e, sources e)) (merge_entries a b)
     = map (\<lambda>e. (domain e, category e, categories_all e, sources e)) (merge_entries b a)
   \<and> (\<forall>d. map_of a d = None \<or> map_of b d = None \<longrightarrow> merge_one a b d = merge_one b a d)
   \<and> merge_entries a [] = List.map_filter (map_of a) (sorted_list_of_set (set (map fst a)))
   \<and> merge_entries [] b = List.map_filter (map_of b) (sorted_list_of_set (set (map fst b)))"
proof -
  have "map (\<lambda>e. (domain e, category e, categories_all e, sources e)) (merge_entries a b)
     = map (\<lambda>e. (domain e, category e, categories_all e, sources e)) (merge_entries b a)"
    unfolding merge_entries_def map_map_filter all_domains_commute[of a b]
    by (simp only: merge_one_core[of a b])
  moreover have "merge_entries a [] = List.map_filter (map_of a) (sorted_list_of_set (set (map fst a)))"
    unfolding merge_entries_def all_domains_def
    by (rule arg_cong2[where f=List.map_filter]) (auto simp: merge_one_empty_right)
  moreover have "merge_entries [] b = List.map_filter (map_of b) (sorted_list_of_set (set (map fst b)))"
    unfolding merge_entries_def all_domains_def
    by (rule arg_cong2[where f=List.map_filter]) (auto simp: merge_one_empty_left)
  ultimately show ?thesis using merge_one_single by blast
qed

theorem merge_entries_swap_witness:
  "(let a = parse_opensources [(''b.example'', [(''type'', ''fake'')]),
                               (''a.example'', [(''type'', ''satire'')])];
        b = parse_iffy (\<lambda>_. None) (\<lambda>_. None)
              [[(''Domain'', ''b.example''), (''MBFC Fact'', ''M'')],
               [(''Domain'', ''c.example''), (''MBFC Fact'', ''L'')]]
    in map (\<lambda>e. (domain e, category e, categories_all e, sources e)) (merge_entries a b)
         = [(''a.example'', ''satire'', {''satire''}, [''opensources'']),
            (''b.example'', ''fake'', {''fake'', ''mixed''}, [''opensources'', ''iffy'']),
            (''c.example'', ''unreliable'', {''unreliable''}, [''iffy''])]
       \<and> map (\<lambda>e. (domain e, category e, categories_all e, sources e)) (merge_entries b a)
         = map (\<lambda>e. (domain e, category e, categories_all e, sources e)) (merge_entries a b)
       \<and> map_of b ''a.example'' = None
       \<and> merge_one a b ''a.example'' = merge_one b a ''a.example''
       \<and> merge_entries a [] = [opensources_entry ''a.example'' [(''type'', ''satire'')],
                                opensources_entry ''b.example'' [(''type'', ''fake'')]])"
proof -
  let ?a = "parse_opensources [(''b.example'', [(''type'', ''fake'')]),
                               (''a.example'', [(''type'', ''satire'')])]"
  let ?b = "parse_iffy (\<lambda>_. None) (\<lambda>_. None)
              [[(''Domain'', ''b.example''), (''MBFC Fact'', ''M'')],
               [(''Domain'', ''c.example''), (''MBFC Fact'', ''L'')]]"
  note sw = merge_entries_swap [of ?a ?b]
  have 1: "map (\<lambda>e. (domain e, category e, categories_all e, sources e)) (merge_entries ?a ?b)
         = [(''a.example'', ''satire'', {''satire''}, [''opensources'']),
            (''b.example'', ''fake'', {''fake'', ''mixed''}, [''opensources'', ''iffy'']),
            (''c.example'', ''unreliable'', {''unreliable''}, [''iffy''])]"
    by code_simp
  have 2: "map (\<lambda>e. (domain e, category e, categories_all e, sources e)) (merge_entries ?b ?a)
         = map (\<lambda>e. (domain e, category e, categories_all e, sources e)) (merge_entries ?a ?b)"
    using sw by simp
  have 3: "map_of ?b ''a.example'' = None" by code_simp
  have 4: "merge_one ?a ?b ''a.example'' = merge_one ?b ?a ''a.example''"
    using sw 3 by blast
  have "List.map_filter (map_of ?a) (sorted_list_of_set (set (map fst ?a)))
          = [opensources_entry ''a.example'' [(''type'', ''satire'')],
             opensources_entry ''b.example'' [(''type'', ''fake'')]]"
    by code_simp
  then have 5: "merge_entries ?a [] = [opensources_entry ''a.example'' [(''type'', ''satire'')],
                                opensources_entry ''b.example'' [(''type'', ''fake'')]]"
    using sw by simp
  from 1 2 3 4 5 show ?thesis unfolding Let_def by blast
qed

text \<open>
  Claim C4 as stated fails on the carried metadata: for a domain in both maps, the swapped
  call looks for the Iffy keys in the OpenSources entry and for \<open>opensources_types\<close> in the
  Iffy entry, and carries neither.
\<close>

theorem merge_entries_not_commutative:
  "map (\<lambda>e. (iffy_score e, opensources_types e))
     (merge_entries (parse_opensources [(''example.com'', [(''type'', ''fake'')])])
                    (parse_iffy (\<lambda>_. Some (1 / 10)) (\<lambda>_. None)
                       [[(''Domain'', ''example.com''), (''MBFC Fact'', ''L''), (''Score'', ''0.1'')]]))
     = [(Some (Some (1 / 10)), Some [''fake'', [], []])]
   \<and> map (\<lambda>e. (iffy_score e, opensources_types e))
     (merge_entries (parse_iffy (\<lambda>_. Some (1 / 10)) (\<lambda>_. None)
                       [[(''Domain'', ''example.com''), (''MBFC Fact'', ''L''), (''Score'', ''0.1'')]])
                    (parse_opensources [(''example.com'', [(''type'', ''fake'')])]))
     = [(None, None)]
   \<and> merge_entries (parse_opensources [(''example.com'', [(''type'', ''fake'')])])
                    (parse_iffy (\<lambda>_. Some (1 / 10)) (\<lambda>_. None)
                       [[(''Domain'', ''example.com''), (''MBFC Fact'', ''L''), (''Score'', ''0.1'')]])
     \<noteq> merge_entries (parse_iffy (\<lambda>_. Some (1 / 10)) (\<lambda>_. None)
                       [[(''Domain'', ''example.com''), (''MBFC Fact'', ''L''), (''Score'', ''0.1'')]])
                    (parse_opensources [(''example.com'', [(''type'', ''fake'')])])"
  by code_simp


section \<open>Rounding and the signals\<close>

lemma py_round_cases:
  obtains k where "py_round x n = of_int k / 10 ^ n" "\<lfloor>x * 10 ^ n\<rfloor> \<le> k" "k \<le> \<lceil>x * 10 ^ n\<rceil>"
proof -
  let ?y = "x * 10 ^ n"
  let ?k = "(if ?y - of_int \<lfloor>?y\<rfloor> < 1 / 2 then \<lfloor>?y\<rfloor>
               else if 1 / 2 < ?y - of_int \<lfloor>?y\<rfloor> then \<lfloor>?y\<rfloor> + 1
               else if even \<lfloor>?y\<rfloor> then \<lfloor>?y\<rfloor> else \<lfloor>?y\<rfloor> + 1)"
  have 1: "py_round x n = of_int ?k / 10 ^ n" by (simp add: py_round_def Let_def)
  have 2: "\<lfloor>?y\<rfloor> \<le> ?k" by simp
  have 3: "?k \<le> \<lceil>?y\<rceil>"
  proof (cases "?y - of_int \<lfloor>?y\<rfloor> < 1 / 2")
    case True
    then show ?thesis by (simp add: floor_le_ceiling)
  next
    case False
    then have "of_int \<lfloor>?y\<rfloor> < ?y" by linarith
    then have "\<lfloor>?y\<rfloor> + 1 \<le> \<lceil>?y\<rceil>" by linarith
    moreover have "?k \<le> \<lfloor>?y\<rfloor> + 1" by simp
    ultimately show ?thesis by linarith
  qed
  from 1 2 3 show ?thesis by (rule that)
qed

lemma py_round_upper:
  assumes "x \<le> of_int b / 10 ^ n"
  shows "py_round x n \<le> of_int b / 10 ^ n"
proof -
  obtain k where k: "py_round x n = of_int k / 10 ^ n" "k \<le> \<lceil>x * 10 ^ n\<rceil>"
    by (rule py_round_cases)
  have "x * 10 ^ n \<le> of_int b" using assms by (simp add: pos_le_divide_eq)
  then have "\<lceil>x * 10 ^ n\<rceil> \<le> b" by (simp add: ceiling_le_iff)
  with k(2) have "k \<le> b" by linarith
  then have "(of_int k :: real) \<le> of_int b" by simp
  then show ?thesis unfolding k(1) by (simp add: divide_right_mono)
qed

lemma py_round_lower:
  assumes "of_int a / 10 ^ n \<le> x"
  shows "of_int a / 10 ^ n \<le> py_round x n"
proof -
  obtain k where k: "py_round x n = of_int k / 10 ^ n" "\<lfloor>x * 10 ^ n\<rfloor> \<le> k"
    by (rule py_round_cases)
  have "of_int a \<le> x * 10 ^ n" using assms by (simp add: pos_divide_le_eq)
  then have "a \<le> \<lfloor>x * 10 ^ n\<rfloor>" by (simp add: le_floor_iff)
  with k(2) have "a \<le> k" by linarith
  then have "(of_int a :: real) \<le> of_int k" by simp
  then show ?thesis unfolding k(1) by (simp add: divide_right_mono)
qed

lemma py_round_unit: "0 \<le> x \<Longrightarrow> x \<le> 1 \<Longrightarrow> 0 \<le> py_round x n \<and> py_round x n \<le> 1"
  using py_round_lower[of 0 n x] py_round_upper[of x "10 ^ n" n] by simp

lemma py_round_cap: "x \<le> 0.05 \<Longrightarrow> py_round x 3 \<le> 0.05"
  using py_round_upper[of x 50 3] by simp

lemma py_round_exact: "py_round (of_int a / 10 ^ n) n = of_int a / 10 ^ n"
  using py_round_lower[of a n "of_int a / 10 ^ n"] py_round_upper[of "of_int a / 10 ^ n" a n] by simp

lemma category_score_unit:
  "0 \<le> dict_get CATEGORY_SCORES c 0.5 \<and> dict_get CATEGORY_SCORES c 0.5 \<le> 1"
  by (simp add: dict_get_def CATEGORY_SCORES_def)

lemma tranco_signal_unit: "0 \<le> tranco_signal t \<and> tranco_signal t \<le> 1"
proof -
  have "0 \<le> log 10 (of_int (max t 1))" by (simp add: zero_le_log_cancel_iff)
  then show ?thesis by (simp add: tranco_signal_def)
qed

lemma fc_signal_unit: "0 \<le> fc_signal k \<and> fc_signal k \<le> 1"
proof -
  have "0 \<le> log 10 (of_int (max k 1))" by (simp add: zero_le_log_cancel_iff)
  then show ?thesis by (simp add: fc_signal_def)
qed

lemma age_signal_unit: "0 \<le> age \<Longrightarrow> 0 \<le> age_signal age \<and> age_signal age \<le> 1"
  by (simp add: age_signal_def)

section \<open>The score\<close>

lemma add_signal_ok:
  assumes "blend_ok bound acc" "0 \<le> w"
    and "\<And>x. signal = Some x \<Longrightarrow> 0 \<le> x \<and> x \<le> 1"
  shows "blend_ok (bound + w) (add_signal w signal acc)"
proof (cases signal)
  case None
  with assms show ?thesis by (simp add: add_signal_def blend_ok_def)
next
  case (Some x)
  with assms(3) have x: "0 \<le> x" "x \<le> 1" by simp_all
  have "0 \<le> w * x" "w * x \<le> w"
    using x assms(2) by (simp_all add: mult_left_le)
  with assms(1) Some show ?thesis by (simp add: add_signal_def blend_ok_def)
qed

lemma fill_unit:
  assumes "blend_ok bound acc" "bound \<le> 1" "0 \<le> c" "c \<le> 1"
  shows "0 \<le> (if snd acc < 1 then fst acc + (1 - snd acc) * c else fst acc)"
    and "(if snd acc < 1 then fst acc + (1 - snd acc) * c else fst acc) \<le> 1"
proof -
  have a: "0 \<le> fst acc" "fst acc \<le> snd acc" "snd acc \<le> 1"
    using assms(1,2) by (simp_all add: blend_ok_def)
  have "0 \<le> (1 - snd acc) * c" using a assms(3) by simp
  moreover have "(1 - snd acc) * c \<le> 1 - snd acc"
    using a assms(3,4) by (simp add: mult_left_le)
  ultimately show "0 \<le> (if snd acc < 1 then fst acc + (1 - snd acc) * c else fst acc)"
    and "(if snd acc < 1 then fst acc + (1 - snd acc) * c else fst acc) \<le> 1"
    using a by auto
qed

lemma score_entry_Inr:
  assumes "score_entry math entry = Inr (m, e')"
  shows "credibility_score e' =
           Some (py_round (if sb_flagged entry then min (weighted_sum entry) 0.05
                           else weighted_sum entry) 3)"
    and "safe_browsing_flagged e' = safe_browsing_flagged entry"
    and "domain e' = domain entry" and "category e' = category entry"
    and "m = (math \<or> tranco_rank entry \<noteq> None)"
  using assms
  by (auto simp: score_entry_def Let_def weighted_sum_def blend_def sb_flagged_def
      split: if_splits option.splits)

lemma score_entry_returns:
  "(\<exists>m e'. score_entry math entry = Inr (m, e')) \<longleftrightarrow>
     (math \<or> tranco_rank entry \<noteq> None \<or> (case factcheck_claims entry of None \<Rightarrow> True | Some k \<Rightarrow> k \<le> 0))"
  by (auto simp: score_entry_def Let_def split: option.splits)

lemma blend_ok_entry:
  assumes "\<And>x. get_opt (iffy_score entry) = Some x \<Longrightarrow> 0 \<le> x \<and> x \<le> 1"
    and "\<And>a. domain_age_years entry = Some a \<Longrightarrow> 0 \<le> a"
  shows "blend_ok 0.9 (blend entry)"
proof -
  let ?c = "dict_get CATEGORY_SCORES (category entry) 0.5"
  let ?a0 = "(0.50 * ?c, 0.50 :: real)"
  let ?a1 = "add_signal 0.15 (get_opt (iffy_score entry)) ?a0"
  let ?a2 = "add_signal 0.05 (map_option tranco_signal (tranco_rank entry)) ?a1"
  let ?a3 = "add_signal 0.05 (map_option age_signal (domain_age_years entry)) ?a2"
  have c: "0 \<le> ?c" "?c \<le> 1" using category_score_unit by simp_all
  have 0: "blend_ok 0.5 ?a0" using c by (simp add: blend_ok_def)
  have 1: "blend_ok (0.5 + 0.15) ?a1"
    by (rule add_signal_ok[OF 0]) (simp_all add: assms(1))
  have 2: "blend_ok (0.5 + 0.15 + 0.05) ?a2"
    by (rule add_signal_ok[OF 1]) (auto simp: tranco_signal_unit)
  have 3: "blend_ok (0.5 + 0.15 + 0.05 + 0.05) ?a3"
    by (rule add_signal_ok[OF 2]) (auto simp: age_signal_unit assms(2))
  have "blend_ok (0.5 + 0.15 + 0.05 + 0.05 + 0.15) (blend entry)"
    unfolding blend_def
    by (rule add_signal_ok[OF 3]) (auto simp: fc_signal_unit split: option.splits if_splits)
  then show ?thesis by simp
qed

lemma weighted_sum_unit:
  assumes "\<And>x. get_opt (iffy_score entry) = Some x \<Longrightarrow> 0 \<le> x \<and> x \<le> 1"
    and "\<And>a. domain_age_years entry = Some a \<Longrightarrow> 0 \<le> a"
  shows "0 \<le> weighted_sum entry \<and> weighted_sum entry \<le> 1"
proof -
  have b: "blend_ok 0.9 (blend entry)" using assms by (rule blend_ok_entry)
  have c: "0 \<le> dict_get CATEGORY_SCORES (category entry) 0.5"
    "dict_get CATEGORY_SCORES (category entry) 0.5 \<le> 1"
    using category_score_unit by simp_all
  have "(0.9 :: real) \<le> 1" by simp
  from fill_unit[OF b this c] show ?thesis unfolding weighted_sum_def by simp
qed

lemma score_entry_range:
  assumes "score_entry math entry = Inr (m, e')"
    and "\<And>x. get_opt (iffy_score entry) = Some x \<Longrightarrow> 0 \<le> x \<and> x \<le> 1"
    and "\<And>a. domain_age_years entry = Some a \<Longrightarrow> 0 \<le> a"
  shows "\<exists>s. credibility_score e' = Some s \<and> 0 \<le> s \<and> s \<le> 1"
proof -
  note w = weighted_sum_unit[OF assms(2,3)]
  let ?s = "(if sb_flagged entry then min (weighted_sum entry) 0.05 else weighted_sum entry)"
  have "0 \<le> ?s" "?s \<le> 1" using w by auto
  then have "0 \<le> py_round ?s 3 \<and> py_round ?s 3 \<le> 1" by (rule py_round_unit)
  with score_entry_Inr(1)[OF assms(1)] show ?thesis by simp
qed

lemma score_entry_all_absent:
  assumes "get_opt (iffy_score entry) = None" "tranco_rank entry = None"
    "domain_age_years entry = None" "factcheck_claims entry = None"
    "safe_browsing_flagged entry = None"
  shows "\<exists>e'. score_entry math entry = Inr (math, e') \<and>
          credibility_score e' = Some (dict_get CATEGORY_SCORES (category entry) 0.5)"
proof -
  have "py_round (dict_get CATEGORY_SCORES (category entry) 0.5) 3
          = dict_get CATEGORY_SCORES (category entry) 0.5"
    by (simp add: dict_get_def CATEGORY_SCORES_def py_round_def)
  then show ?thesis
    using assms by (simp add: score_entry_def Let_def add_signal_def algebra_simps)
qed

lemma score_entry_cap:
  assumes "score_entry math entry = Inr (m, e')" "safe_browsing_flagged entry = Some True"
  shows "\<exists>s. credibility_score e' = Some s \<and> s \<le> 0.05"
proof -
  have "sb_flagged entry" using assms(2) by (simp add: sb_flagged_def)
  with score_entry_Inr(1)[OF assms(1)]
  have "credibility_score e' = Some (py_round (min (weighted_sum entry) 0.05) 3)" by simp
  moreover have "py_round (min (weighted_sum entry) 0.05) 3 \<le> 0.05"
    by (rule py_round_cap) simp
  ultimately show ?thesis by simp
qed

lemma log10_50_upper: "log 10 50 < 17 / 10"
proof -
  have "(50::real) ^ 10 < 10 ^ 17" by simp
  then have a: "log 10 ((50::real) ^ 10) < log 10 (10 ^ 17)"
    by (subst log_less_cancel_iff) simp_all
  have b: "log 10 ((50::real) ^ 10) = 10 * log 10 50"
    by (subst log_nat_power) simp_all
  have c: "log 10 ((10::real) ^ 17) = 17"
    by (subst log_nat_power) simp_all
  from a[unfolded b c] show ?thesis by linarith
qed

lemma log10_50_lower: "339 / 200 < log 10 50"
proof -
  have "(10::real) ^ 339 < 50 ^ 200" by simp
  then have a: "log 10 ((10::real) ^ 339) < log 10 (50 ^ 200)"
    by (subst log_less_cancel_iff) simp_all
  have b: "log 10 ((50::real) ^ 200) = 200 * log 10 50"
    by (subst log_nat_power) simp_all
  have c: "log 10 ((10::real) ^ 339) = 339"
    by (subst log_nat_power) simp_all
  from a[unfolded b c] show ?thesis by linarith
qed

lemma log10_51_lower: "17 / 10 < log 10 51"
proof -
  have "(10::real) ^ 17 < 51 ^ 10" by simp
  then have a: "log 10 ((10::real) ^ 17) < log 10 (51 ^ 10)"
    by (subst log_less_cancel_iff) simp_all
  have b: "log 10 ((51::real) ^ 10) = 10 * log 10 51"
    by (subst log_nat_power) simp_all
  have c: "log 10 ((10::real) ^ 17) = 17"
    by (subst log_nat_power) simp_all
  from a[unfolded b c] show ?thesis by linarith
qed

lemma fc_signal_1: "fc_signal 1 = 1"
  by (simp add: fc_signal_def)

lemma fc_signal_10: "fc_signal 10 = 7 / 17"
  by (simp add: fc_signal_def)

lemma fc_signal_50: "0 < fc_signal 50 \<and> fc_signal 50 < 1 / 340"
proof -
  have "fc_signal 50 = max 0 (1 - log 10 50 / 1.7)" by (simp add: fc_signal_def)
  moreover have "0 < 1 - log 10 50 / 1.7" using log10_50_upper by simp
  moreover have "1 - log 10 50 / 1.7 < 1 / 340" using log10_50_lower by simp
  ultimately show ?thesis by simp
qed

lemma fc_signal_51: "51 \<le> n \<Longrightarrow> fc_signal n = 0"
proof -
  assume n: "51 \<le> n"
  then have "log 10 51 \<le> log 10 (of_int n)"
    by (subst log_le_cancel_iff) simp_all
  with log10_51_lower have "17 / 10 < log 10 (of_int n)" by linarith
  then have "1 - log 10 (of_int n) / 1.7 < 0" by simp
  moreover have "max n 1 = n" using n by simp
  ultimately show ?thesis by (simp add: fc_signal_def)
qed

lemma score_entry_component:
  assumes "score_entry math entry = Inr (m, e')" "factcheck_claims entry = Some n" "0 < n"
  shows "map_option comp_factcheck (score_components e') = Some (Some (py_round (fc_signal n) 2))"
  using assms by (auto simp: score_entry_def Let_def split: if_splits)

lemma score_loop_Inr:
  "score_loop math entries = Inr scored \<Longrightarrow>
     list_all2 (\<lambda>e e'. \<exists>mth m. score_entry mth e = Inr (m, e')) entries scored"
proof (induction entries arbitrary: math scored)
  case Nil
  then show ?case by simp
next
  case (Cons e es)
  from Cons.prems obtain m e' where 1: "score_entry math e = Inr (m, e')"
    by (auto split: sum.splits)
  with Cons.prems obtain rest where 2: "score_loop m es = Inr rest" and 3: "scored = e' # rest"
    by (auto split: sum.splits)
  from Cons.IH[OF 2] 1 3 show ?case by auto
qed

lemma step_score_Inr:
  "step_score entries = Inr (scored, tier1) \<Longrightarrow> score_loop False entries = Inr scored"
  by (auto simp: step_score_def split: sum.splits if_splits)

lemma scored_member:
  assumes "step_score entries = Inr (scored, tier1)" "e' \<in> set scored"
  obtains e mth m where "e \<in> set entries" "score_entry mth e = Inr (m, e')"
proof -
  have "list_all2 (\<lambda>e e'. \<exists>mth m. score_entry mth e = Inr (m, e')) entries scored"
    using assms(1) by (intro score_loop_Inr[of False]) (rule step_score_Inr)
  then have l: "length entries = length scored"
    and n: "\<And>i. i < length scored \<Longrightarrow> \<exists>mth m. score_entry mth (entries ! i) = Inr (m, scored ! i)"
    by (simp_all add: list_all2_conv_all_nth)
  from assms(2) obtain i where i: "i < length scored" "e' = scored ! i"
    by (auto simp: in_set_conv_nth)
  from n[OF i(1)] obtain mth m where "score_entry mth (entries ! i) = Inr (m, e')"
    using i(2) by auto
  moreover have "entries ! i \<in> set entries" using i(1) l by simp
  ultimately show ?thesis using that by blast
qed

lemma scored_fields:
  assumes "step_score entries = Inr (scored, tier1)"
  shows "map safe_browsing_flagged scored = map safe_browsing_flagged entries"
    and "map domain scored = map domain entries"
    and "map category scored = map category entries"
proof -
  have l: "list_all2 (\<lambda>e e'. \<exists>mth m. score_entry mth e = Inr (m, e')) entries scored"
    using assms(1) by (intro score_loop_Inr[of False]) (rule step_score_Inr)
  then have "list_all2 (\<lambda>e e'. safe_browsing_flagged e' = safe_browsing_flagged e
      \<and> domain e' = domain e \<and> category e' = category e) entries scored"
    by (rule list_all2_mono) (auto dest: score_entry_Inr)
  then show "map safe_browsing_flagged scored = map safe_browsing_flagged entries"
    and "map domain scored = map domain entries"
    and "map category scored = map category entries"
    by (auto simp: list_all2_conv_all_nth intro!: nth_equalityI)
qed

text \<open>The range of the score, for every record the engine scores.\<close>

lemma step_score_range:
  assumes "step_score entries = Inr (scored, tier1)"
    and "\<And>e x. e \<in> set entries \<Longrightarrow> get_opt (iffy_score e) = Some x \<Longrightarrow> 0 \<le> x \<and> x \<le> 1"
    and "\<And>e a. e \<in> set entries \<Longrightarrow> domain_age_years e = Some a \<Longrightarrow> 0 \<le> a"
    and "e' \<in> set scored"
  shows "\<exists>s. credibility_score e' = Some s \<and> 0 \<le> s \<and> s \<le> 1"
proof -
  from scored_member[OF assms(1,4)] obtain e mth m
    where e: "e \<in> set entries" "score_entry mth e = Inr (m, e')" by blast
  show ?thesis
    by (rule score_entry_range[OF e(2)]) (use assms(2,3) e(1) in blast)+
qed

lemma step_score_cap:
  assumes "step_score entries = Inr (scored, tier1)"
  shows "map domain scored = map domain entries
       \<and> map safe_browsing_flagged scored = map safe_browsing_flagged entries
       \<and> (\<forall>e' \<in> set scored. safe_browsing_flagged e' = Some True \<longrightarrow>
            (\<exists>s. credibility_score e' = Some s \<and> s \<le> 0.05))"
proof -
  have "\<exists>s. credibility_score e' = Some s \<and> s \<le> 0.05"
    if "e' \<in> set scored" "safe_browsing_flagged e' = Some True" for e'
  proof -
    from scored_member[OF assms that(1)] obtain e mth m
      where e: "score_entry mth e = Inr (m, e')" by blast
    then have "safe_browsing_flagged e = Some True"
      using that(2) score_entry_Inr(2)[OF e] by simp
    with e show ?thesis by (rule score_entry_cap)
  qed
  with scored_fields[OF assms] show ?thesis by blast
qed

lemma score_entry_cap_total:
  assumes "safe_browsing_flagged entry = Some True"
    and "math \<or> tranco_rank entry \<noteq> None \<or> factcheck_claims entry = None"
  shows "\<exists>m e' s. score_entry math entry = Inr (m, e') \<and> credibility_score e' = Some s \<and> s \<le> 0.05"
proof -
  from assms(2) have "math \<or> tranco_rank entry \<noteq> None
      \<or> (case factcheck_claims entry of None \<Rightarrow> True | Some k \<Rightarrow> k \<le> 0)"
    by auto
  then obtain m e' where e: "score_entry math entry = Inr (m, e')"
    unfolding score_entry_returns[symmetric] by blast
  from score_entry_cap[OF e assms(1)] e show ?thesis by blast
qed

lemma score_entry_component_total:
  assumes "factcheck_claims entry = Some n" "0 < n" "math \<or> tranco_rank entry \<noteq> None"
  shows "\<exists>m e'. score_entry math entry = Inr (m, e') \<and>
           map_option comp_factcheck (score_components e') = Some (Some (py_round (fc_signal n) 2))"
proof -
  from assms(3) have "math \<or> tranco_rank entry \<noteq> None
      \<or> (case factcheck_claims entry of None \<Rightarrow> True | Some k \<Rightarrow> k \<le> 0)"
    by auto
  then obtain m e' where e: "score_entry math entry = Inr (m, e')"
    unfolding score_entry_returns[symmetric] by blast
  from score_entry_component[OF e assms(1,2)] e show ?thesis by blast
qed

text \<open>
  The cap on the records that are scored. Whenever \<open>step_score\<close> returns, it has scored
  every record it was given, in order and with the flags unchanged, and every record with
  the safe-browsing flag set has a \<open>credibility_score\<close> of at most 0.05; and one flagged
  record is scored, and capped, whenever it has a rank or no fact-check claims, or \<open>math\<close>
  is bound already.
\<close>

lemma safe_browsing_cap:
  "(step_score entries = Inr (scored, tier1) \<longrightarrow>
      map domain scored = map domain entries
      \<and> map safe_browsing_flagged scored = map safe_browsing_flagged entries
      \<and> (\<forall>e' \<in> set scored. safe_browsing_flagged e' = Some True \<longrightarrow>
           (\<exists>s. credibility_score e' = Some s \<and> s \<le> 0.05)))
   \<and> (safe_browsing_flagged entry = Some True
        \<and> (math \<or> tranco_rank entry \<noteq> None \<or> factcheck_claims entry = None) \<longrightarrow>
      (\<exists>m e' s. score_entry math entry = Inr (m, e') \<and> credibility_score e' = Some s \<and> s \<le> 0.05))"
proof (intro conjI impI)
  assume r: "step_score entries = Inr (scored, tier1)"
  from step_score_cap[OF r]
  show "map domain scored = map domain entries"
    and "map safe_browsing_flagged scored = map safe_browsing_flagged entries"
    and "\<forall>e' \<in> set scored. safe_browsing_flagged e' = Some True \<longrightarrow>
           (\<exists>s. credibility_score e' = Some s \<and> s \<le> 0.05)"
    by blast+
next
  assume "safe_browsing_flagged entry = Some True
        \<and> (math \<or> tranco_rank entry \<noteq> None \<or> factcheck_claims entry = None)"
  then show "\<exists>m e' s. score_entry math entry = Inr (m, e') \<and> credibility_score e' = Some s \<and> s \<le> 0.05"
    using score_entry_cap_total by blast
qed

lemmas score_eval =
  step_score_def score_entry_def new_entry_def Let_def dict_get_def CATEGORY_SCORES_def
  get_opt_def tranco_signal_def age_signal_def fc_signal_def add_signal_def py_round_def
  step_score_row_def first_letter_def

lemma safe_browsing_cap_example:
  "(case step_score
          [(new_entry ''example.com'' ''reliable'' {''reliable''} [''iffy''])
             \<lparr> iffy_score := Some (Some 1), tranco_rank := Some 1, domain_age_years := Some 30,
               factcheck_claims := Some 1, safe_browsing_flagged := Some True \<rparr>] of
      Inl err \<Rightarrow> False
    | Inr (scored, tier1) \<Rightarrow>
        map safe_browsing_flagged scored = [Some True]
        \<and> map credibility_score scored = [Some 0.05]
        \<and> list_all (\<lambda>e'. \<exists>s. credibility_score e' = Some s \<and> s \<le> 0.05) scored)"
proof -
  let ?e = "(new_entry ''example.com'' ''reliable'' {''reliable''} [''iffy''])
             \<lparr> iffy_score := Some (Some 1), tranco_rank := Some 1, domain_age_years := Some 30,
               factcheck_claims := Some 1, safe_browsing_flagged := Some True \<rparr>"
  obtain scored tier1 where ev: "step_score [?e] = Inr (scored, tier1)"
    and sc: "map credibility_score scored = [Some 0.05]"
    by (simp add: score_eval)
  from safe_browsing_cap[of "[?e]" scored tier1 ?e False] ev
  have cap: "map safe_browsing_flagged scored = map safe_browsing_flagged [?e]
       \<and> (\<forall>e' \<in> set scored. safe_browsing_flagged e' = Some True \<longrightarrow>
            (\<exists>s. credibility_score e' = Some s \<and> s \<le> 0.05))"
    by blast
  from cap have fl: "map safe_browsing_flagged scored = [Some True]"
    by (simp add: new_entry_def)
  then have "\<forall>e' \<in> set scored. safe_browsing_flagged e' = Some True"
    by (auto simp: map_eq_Cons_conv)
  with cap have "list_all (\<lambda>e'. \<exists>s. credibility_score e' = Some s \<and> s \<le> 0.05) scored"
    unfolding list_all_iff by blast
  with ev sc fl show ?thesis by simp
qed

text \<open>
  Claim C1. The score is in \<open>[0,1]\<close> for every record that is scored (lemma
  \<open>step_score_range\<close>), and with no signal it is the category score (lemma
  \<open>score_entry_all_absent\<close>). But not every combination of signals is scored: a record
  with fact-check claims and no rank, met before any record with a rank, makes
  \<open>step_score\<close> raise \<open>UnboundLocalError\<close>, since \<open>math\<close> is imported only inside the
  rank branch. The same two records in the other order are scored.
\<close>

theorem step_score_unbound_math:
  "step_score [(new_entry ''example.com'' ''fake'' {''fake''} [''iffy'']) \<lparr> factcheck_claims := Some 3 \<rparr>]
     = Inl UnboundLocalError
   \<and> step_score [(new_entry ''a.example'' ''fake'' {''fake''} [''iffy'']) \<lparr> factcheck_claims := Some 1 \<rparr>,
                 (new_entry ''b.example'' ''fake'' {''fake''} [''iffy'']) \<lparr> tranco_rank := Some 1 \<rparr>]
     = Inl UnboundLocalError
   \<and> (case step_score [(new_entry ''b.example'' ''fake'' {''fake''} [''iffy'']) \<lparr> tranco_rank := Some 1 \<rparr>,
                       (new_entry ''a.example'' ''fake'' {''fake''} [''iffy'']) \<lparr> factcheck_claims := Some 1 \<rparr>] of
         Inl err \<Rightarrow> False
       | Inr (scored, tier1) \<Rightarrow> map credibility_score scored = [Some 0.05, Some 0.15])"
  by (simp add: score_eval)

text \<open>
  Claim C3. The cap \<open>min(score, 0.05)\<close> is the last step of the loop body, after the
  fact-check branch. A flagged record with fact-check claims and no rank, met before any
  record with a rank, never reaches it: \<open>step_score\<close> raises \<open>UnboundLocalError\<close> at
  \<open>math.log10\<close> and the record gets no score, capped or not. (\<open>import math\<close> stands
  only inside the rank branch; every flagged record that is scored is capped, by the lemma
  \<open>safe_browsing_cap\<close>.)
\<close>

theorem flagged_record_unbound_math:
  "step_score [(new_entry ''example.com'' ''reliable'' {''reliable''} [''iffy''])
                 \<lparr> factcheck_claims := Some 3, safe_browsing_flagged := Some True \<rparr>]
     = Inl UnboundLocalError"
  by (simp add: step_score_def score_entry_def new_entry_def Let_def)

text \<open>
  The values of the fact-check signal. For a record with a positive \<open>factcheck_claims\<close>
  that is scored, the signal is \<open>max(0, 1 - log10(max(claims, 1)) / 1.7)\<close>, recorded to two
  decimals in \<open>score_components\<close>. For one claim it is exactly 1, for ten claims \<open>7/17\<close>,
  for fifty claims positive and below \<open>1/340\<close>, and from 51 claims on exactly 0.
\<close>

lemma fc_signal_formula:
  "(score_entry math entry = Inr (m, e') \<and> factcheck_claims entry = Some n \<and> 0 < n \<longrightarrow>
      fc_signal n = max 0 (1 - log 10 (of_int (max n 1)) / 1.7)
      \<and> map_option comp_factcheck (score_components e') = Some (Some (py_round (fc_signal n) 2)))
   \<and> (factcheck_claims entry = Some n \<and> 0 < n \<and> (math \<or> tranco_rank entry \<noteq> None) \<longrightarrow>
      (\<exists>m e'. score_entry math entry = Inr (m, e') \<and>
         map_option comp_factcheck (score_components e') = Some (Some (py_round (fc_signal n) 2))))
   \<and> fc_signal 1 = 1
   \<and> fc_signal 10 = 7 / 17
   \<and> 0 < fc_signal 50 \<and> fc_signal 50 < 1 / 340
   \<and> (\<forall>k \<ge> 51. fc_signal k = 0)"
proof -
  have "score_entry math entry = Inr (m, e') \<and> factcheck_claims entry = Some n \<and> 0 < n \<longrightarrow>
      fc_signal n = max 0 (1 - log 10 (of_int (max n 1)) / 1.7)
      \<and> map_option comp_factcheck (score_components e') = Some (Some (py_round (fc_signal n) 2))"
    using score_entry_component[of math entry m e' n] by (simp add: fc_signal_def)
  moreover have "factcheck_claims entry = Some n \<and> 0 < n \<and> (math \<or> tranco_rank entry \<noteq> None) \<longrightarrow>
      (\<exists>m e'. score_entry math entry = Inr (m, e') \<and>
         map_option comp_factcheck (score_components e') = Some (Some (py_round (fc_signal n) 2)))"
    using score_entry_component_total[of entry n math] by blast
  moreover have "\<forall>k \<ge> 51. fc_signal k = 0" using fc_signal_51 by blast
  ultimately show ?thesis
    using fc_signal_1 fc_signal_10 fc_signal_50 by blast
qed

lemma fc_signal_formula_example:
  "(case score_entry True ((new_entry ''example.com'' ''mixed'' {''mixed''} [''iffy'']) \<lparr> factcheck_claims := Some 1 \<rparr>) of
      Inl err \<Rightarrow> False
    | Inr (m, e') \<Rightarrow>
        map_option comp_factcheck (score_components e') = Some (Some (py_round (fc_signal 1) 2))
        \<and> credibility_score e' = Some 0.575)
   \<and> fc_signal 60 = 0"
proof -
  let ?e = "(new_entry ''example.com'' ''mixed'' {''mixed''} [''iffy'']) \<lparr> factcheck_claims := Some 1 \<rparr>"
  obtain m e' where ev: "score_entry True ?e = Inr (m, e')"
    and sc: "credibility_score e' = Some 0.575"
    by (simp add: score_eval)
  have fc: "factcheck_claims ?e = Some 1" by (simp add: new_entry_def)
  note f = fc_signal_formula [of True ?e m e' 1]
  have pos: "(0::int) < 1" by simp
  from f ev fc pos have "map_option comp_factcheck (score_components e') = Some (Some (py_round (fc_signal 1) 2))"
    by blast
  moreover from f have "fc_signal 60 = 0" by simp
  ultimately show ?thesis using ev sc by simp
qed

text \<open>
  Claim C9. The formula of the code and the values that its own comment gives
  (\<open>1 claim -> 0.8, 10 claims -> 0.3, 50+ claims -> 0.0\<close>) do not agree: a record with one
  fact-check claim (and a rank, so that \<open>math\<close> is bound) gets the fact-check signal 1.0,
  not 0.8, and one with ten claims gets 0.41, not 0.3.
\<close>

theorem fc_signal_contradicts_comment:
  "(case step_score [(new_entry ''example.com'' ''mixed'' {''mixed''} [''iffy''])
                       \<lparr> tranco_rank := Some 1, factcheck_claims := Some 1 \<rparr>] of
      Inl err \<Rightarrow> False
    | Inr (scored, tier1) \<Rightarrow>
        map (\<lambda>e. map_option comp_factcheck (score_components e)) scored = [Some (Some 1)]
        \<and> map credibility_score scored = [Some 0.6])
   \<and> (case step_score [(new_entry ''example.com'' ''mixed'' {''mixed''} [''iffy''])
                       \<lparr> tranco_rank := Some 1, factcheck_claims := Some 10 \<rparr>] of
      Inl err \<Rightarrow> False
    | Inr (scored, tier1) \<Rightarrow>
        map (\<lambda>e. map_option comp_factcheck (score_components e)) scored = [Some (Some 0.41)])
   \<and> fc_signal 1 = 1
   \<and> fc_signal 10 = 7 / 17
   \<and> \<not> \<bar>fc_signal 1 - 0.8\<bar> < 0.2"
  by (simp add: score_eval)


section \<open>Enrichment on a warm cache\<close>

lemma factcheck_to_query_warm:
  "\<forall>e \<in> set entries. map_of cache (domain e) \<noteq> None \<Longrightarrow> factcheck_to_query cache entries limit = []"
  by (simp add: factcheck_to_query_def Let_def filter_empty_conv)

lemma rdap_to_query_warm:
  "\<forall>e \<in> set entries. map_of cache (get_base_domain (domain e)) \<noteq> None
     \<Longrightarrow> rdap_to_query cache entries limit = []"
  by (simp add: rdap_to_query_def Let_def filter_empty_conv)

lemma step_factcheck_warm:
  assumes "\<forall>e \<in> set entries. map_of cache (domain e) \<noteq> None"
  shows "step_factcheck query (Some key) (Some cache) entries limit
           = Inr (map (factcheck_apply cache) entries, Some cache, [])"
  by (simp add: step_factcheck_def factcheck_to_query_warm[OF assms])

lemma step_rdap_warm:
  assumes "\<forall>e \<in> set entries. map_of cache (get_base_domain (domain e)) \<noteq> None" "entries \<noteq> []"
  shows "step_rdap query reg_time now (Some cache) entries limit
           = Inr (map (rdap_apply reg_time now cache) entries, Some cache, [])"
  using assms(2) by (simp add: step_rdap_def rdap_to_query_warm[OF assms(1)])


text \<open>A run without a limit leaves every key in the cache, so the next run is warm.\<close>

lemma keys_update: "fst ` set (AList.update k v al) = insert k (fst ` set al)"
  by (induction al) auto

lemma factcheck_query_loop_keys:
  "fst ` set (fst (factcheck_query_loop query to_query (cache, queried)))
     = fst ` set cache \<union> domain ` set to_query"
proof (induction to_query arbitrary: cache queried)
  case Nil
  then show ?case by simp
next
  case (Cons e es)
  show ?case
  proof (cases "map_of cache (domain e) = None")
    case False
    then have "domain e \<in> fst ` set cache" by (simp add: map_of_eq_None_iff)
    with False Cons.IH[of cache queried] show ?thesis by auto
  next
    case True
    then show ?thesis
      by (simp add: Let_def split_beta Cons.IH keys_update)
  qed
qed

lemma rdap_query_loop_keys:
  "fst ` set (fst (rdap_query_loop query to_query (cache, queried)))
     = fst ` set cache \<union> (\<lambda>e. get_base_domain (domain e)) ` set to_query"
proof (induction to_query arbitrary: cache queried)
  case Nil
  then show ?case by simp
next
  case (Cons e es)
  show ?case
  proof (cases "map_of cache (get_base_domain (domain e)) = None")
    case False
    then have "get_base_domain (domain e) \<in> fst ` set cache" by (simp add: map_of_eq_None_iff)
    with False Cons.IH[of cache queried] show ?thesis by auto
  next
    case True
    then show ?thesis
      by (simp add: Let_def Cons.IH keys_update)
  qed
qed

lemma step_factcheck_rerun:
  assumes "limit \<le> 0"
    and "step_factcheck query (Some key) cache_file entries limit = Inr (entries', cache_file', queried)"
  shows "step_factcheck query' (Some key') cache_file' entries limit' = Inr (entries', cache_file', [])"
proof -
  define cache where "cache = (case cache_file of None \<Rightarrow> [] | Some c \<Rightarrow> c)"
  define to_query where "to_query = filter (\<lambda>e. map_of cache (domain e) = None) entries"
  define cache1 where "cache1 = fst (factcheck_query_loop query to_query (cache, []))"
  have tq: "factcheck_to_query cache entries limit = to_query"
    using assms(1) by (simp add: factcheck_to_query_def to_query_def)
  from assms(2) have e': "entries' = map (factcheck_apply cache1) entries"
    and cf': "cache_file' = (if to_query \<noteq> [] then Some cache1 else cache_file)"
    by (auto simp: step_factcheck_def Let_def split_beta tq cache_def[symmetric] cache1_def
        cong: if_cong)
  have keys: "fst ` set cache1 = fst ` set cache \<union> domain ` set to_query"
    unfolding cache1_def by (rule factcheck_query_loop_keys)
  have warm: "\<forall>e \<in> set entries. map_of cache1 (domain e) \<noteq> None"
  proof
    fix e assume "e \<in> set entries"
    then have "domain e \<in> fst ` set cache \<or> e \<in> set to_query"
      by (auto simp: to_query_def map_of_eq_None_iff)
    then have "domain e \<in> fst ` set cache1" unfolding keys by auto
    then show "map_of cache1 (domain e) \<noteq> None" by (simp add: map_of_eq_None_iff)
  qed
  show ?thesis
  proof (cases "to_query = []")
    case False
    with cf' have "cache_file' = Some cache1" by simp
    then show ?thesis using step_factcheck_warm[OF warm] e' by simp
  next
    case True
    then have c1: "cache1 = cache" by (simp add: cache1_def)
    from True cf' have c: "cache_file' = cache_file" by simp
    have "factcheck_to_query cache entries limit' = []"
      using warm c1 by (intro factcheck_to_query_warm) simp
    then show ?thesis
      using e' c c1 by (simp add: step_factcheck_def Let_def cache_def[symmetric])
  qed
qed

lemma step_rdap_rerun:
  assumes "limit \<le> 0"
    and "step_rdap query reg_time now cache_file entries limit = Inr (entries', cache_file', queried)"
  shows "step_rdap query' reg_time now cache_file' entries limit' = Inr (entries', cache_file', [])"
proof -
  define cache where "cache = (case cache_file of None \<Rightarrow> [] | Some c \<Rightarrow> c)"
  define to_query where
    "to_query = filter (\<lambda>e. map_of cache (get_base_domain (domain e)) = None) entries"
  define cache1 where "cache1 = fst (rdap_query_loop query to_query (cache, []))"
  have tq: "rdap_to_query cache entries limit = to_query"
    using assms(1) by (simp add: rdap_to_query_def to_query_def)
  from assms(2) have ne: "entries \<noteq> []"
    by (auto simp: step_rdap_def Let_def split_beta split: if_splits)
  from assms(2) have e': "entries' = map (rdap_apply reg_time now cache1) entries"
    and cf': "cache_file' = (if to_query \<noteq> [] then Some cache1 else cache_file)"
    by (auto simp: step_rdap_def Let_def split_beta tq cache_def[symmetric] cache1_def
        cong: if_cong split: if_splits)
  have keys: "fst ` set cache1 = fst ` set cache \<union> (\<lambda>e. get_base_domain (domain e)) ` set to_query"
    unfolding cache1_def by (rule rdap_query_loop_keys)
  have warm: "\<forall>e \<in> set entries. map_of cache1 (get_base_domain (domain e)) \<noteq> None"
  proof
    fix e assume "e \<in> set entries"
    then have "get_base_domain (domain e) \<in> fst ` set cache \<or> e \<in> set to_query"
      by (auto simp: to_query_def map_of_eq_None_iff)
    then have "get_base_domain (domain e) \<in> fst ` set cache1" unfolding keys by auto
    then show "map_of cache1 (get_base_domain (domain e)) \<noteq> None"
      by (simp add: map_of_eq_None_iff)
  qed
  show ?thesis
  proof (cases "to_query = []")
    case False
    with cf' have "cache_file' = Some cache1" by simp
    then show ?thesis using step_rdap_warm[OF warm ne] e' by simp
  next
    case True
    then have c1: "cache1 = cache" by (simp add: cache1_def)
    from True cf' have c: "cache_file' = cache_file" by simp
    have "rdap_to_query cache entries limit' = []"
      using warm c1 by (intro rdap_to_query_warm) simp
    then show ?thesis
      using e' c c1 ne by (simp add: step_rdap_def Let_def cache_def[symmetric])
  qed
qed

text \<open>
  Claim C7 (as amended). A step that finds every key in its cache makes no query and leaves
  the cache as it is, and its output is then determined by the input records and the cache
  for \<open>step_factcheck\<close>, and by the input records, the cache and the clock for
  \<open>step_rdap\<close>, whatever the provider would answer. After a run without a limit, a second
  run on the same input makes no query and returns the same records and the same cache; for
  \<open>step_rdap\<close> this needs the second run to read the same clock value, since the domain age
  is computed from the current date.
\<close>

theorem warm_cache_rerun:
  "((\<forall>e \<in> set entries. map_of fc_cache (domain e) \<noteq> None) \<longrightarrow>
      step_factcheck query (Some key) (Some fc_cache) entries limit
        = Inr (map (factcheck_apply fc_cache) entries, Some fc_cache, []))
   \<and> ((\<forall>e \<in> set entries. map_of rdap_cache (get_base_domain (domain e)) \<noteq> None) \<and> entries \<noteq> [] \<longrightarrow>
      step_rdap rdap_query reg_time now (Some rdap_cache) entries limit
        = Inr (map (rdap_apply reg_time now rdap_cache) entries, Some rdap_cache, []))
   \<and> (limit \<le> 0 \<and> step_factcheck query (Some key) fc_file entries limit
                       = Inr (fc_entries, fc_file', fc_queried) \<longrightarrow>
      step_factcheck query' (Some key') fc_file' entries limit' = Inr (fc_entries, fc_file', []))
   \<and> (limit \<le> 0 \<and> step_rdap rdap_query reg_time now rdap_file entries limit
                       = Inr (rdap_entries, rdap_file', rdap_queried) \<longrightarrow>
      step_rdap rdap_query' reg_time now rdap_file' entries limit' = Inr (rdap_entries, rdap_file', []))"
proof (intro conjI impI)
  assume "\<forall>e \<in> set entries. map_of fc_cache (domain e) \<noteq> None"
  then show "step_factcheck query (Some key) (Some fc_cache) entries limit
        = Inr (map (factcheck_apply fc_cache) entries, Some fc_cache, [])"
    by (rule step_factcheck_warm)
next
  assume "(\<forall>e \<in> set entries. map_of rdap_cache (get_base_domain (domain e)) \<noteq> None) \<and> entries \<noteq> []"
  then show "step_rdap rdap_query reg_time now (Some rdap_cache) entries limit
        = Inr (map (rdap_apply reg_time now rdap_cache) entries, Some rdap_cache, [])"
    by (intro step_rdap_warm) simp_all
next
  assume "limit \<le> 0 \<and> step_factcheck query (Some key) fc_file entries limit
                       = Inr (fc_entries, fc_file', fc_queried)"
  then show "step_factcheck query' (Some key') fc_file' entries limit' = Inr (fc_entries, fc_file', [])"
    using step_factcheck_rerun by blast
next
  assume "limit \<le> 0 \<and> step_rdap rdap_query reg_time now rdap_file entries limit
                       = Inr (rdap_entries, rdap_file', rdap_queried)"
  then show "step_rdap rdap_query' reg_time now rdap_file' entries limit' = Inr (rdap_entries, rdap_file', [])"
    using step_rdap_rerun by blast
qed


theorem warm_cache_rerun_witness:
  "(let entries = [new_entry ''example.com'' ''fake'' {''fake''} [''opensources''],
                   new_entry ''news.example.co.uk'' ''mixed'' {''mixed''} [''iffy'']];
        fc_cache = [(''example.com'', FcClaims 4), (''news.example.co.uk'', FcFailed)];
        rdap_cache = [(''example.com'',
                        \<lparr> rdap_error = False, registered = Some ''2000-01-01T00:00:00Z'',
                          expires = None, updated = None \<rparr>),
                      (''example.co.uk'', rdap_error_marker)];
        reg_time = (\<lambda>s. if s = ''2000-01-01T00:00:00Z'' then Some 946684800 else None);
        cold = [(''example.com'', FcClaims 2), (''news.example.co.uk'', FcClaims 2)]
    in step_factcheck (\<lambda>n d. FcClaims 2) (Some ''key'') (Some fc_cache) entries 0
         = Inr (map (factcheck_apply fc_cache) entries, Some fc_cache, [])
       \<and> map factcheck_claims (map (factcheck_apply fc_cache) entries) = [Some 4, None]
       \<and> step_rdap (\<lambda>n d. None) reg_time 1262304000 (Some rdap_cache) entries 0
         = Inr (map (rdap_apply reg_time 1262304000 rdap_cache) entries, Some rdap_cache, [])
       \<and> map domain_age_years (map (rdap_apply reg_time 1262304000 rdap_cache) entries)
         = [Some 10, None]
       \<and> step_factcheck (\<lambda>n d. FcClaims 2) (Some ''key'') None entries 0
         = Inr (map (factcheck_apply cold) entries, Some cold, [''example.com'', ''news.example.co.uk''])
       \<and> step_factcheck (\<lambda>n d. FcFailed) (Some ''other key'') (Some cold) entries 5
         = Inr (map (factcheck_apply cold) entries, Some cold, []))"
proof -
  let ?entries = "[new_entry ''example.com'' ''fake'' {''fake''} [''opensources''],
                   new_entry ''news.example.co.uk'' ''mixed'' {''mixed''} [''iffy'']]"
  let ?fc = "[(''example.com'', FcClaims 4), (''news.example.co.uk'', FcFailed)]"
  let ?rd = "[(''example.com'',
                        \<lparr> rdap_error = False, registered = Some ''2000-01-01T00:00:00Z'',
                          expires = None, updated = None \<rparr>),
                      (''example.co.uk'', rdap_error_marker)]"
  let ?rt = "(\<lambda>s. if s = ''2000-01-01T00:00:00Z'' then Some (946684800 :: int) else None)"
  let ?cold = "[(''example.com'', FcClaims 2), (''news.example.co.uk'', FcClaims 2)]"
  note w = warm_cache_rerun [of ?entries ?fc "\<lambda>n d. FcClaims 2" "''key''" 0 ?rd "\<lambda>n d. None" ?rt
      1262304000 None "map (factcheck_apply ?cold) ?entries" "Some ?cold"
      "[''example.com'', ''news.example.co.uk'']" "\<lambda>n d. FcFailed" "''other key''" 5]
  have h1: "\<forall>e \<in> set ?entries. map_of ?fc (domain e) \<noteq> None" by code_simp
  have h2: "(\<forall>e \<in> set ?entries. map_of ?rd (get_base_domain (domain e)) \<noteq> None) \<and> ?entries \<noteq> []"
    by code_simp
  have h3: "(0::int) \<le> 0 \<and> step_factcheck (\<lambda>n d. FcClaims 2) (Some ''key'') None ?entries 0
         = Inr (map (factcheck_apply ?cold) ?entries, Some ?cold, [''example.com'', ''news.example.co.uk''])"
    by code_simp
  have v1: "map factcheck_claims (map (factcheck_apply ?fc) ?entries) = [Some 4, None]"
    by code_simp
  have v2: "map domain_age_years (map (rdap_apply ?rt 1262304000 ?rd) ?entries) = [Some 10, None]"
    by code_simp
  from w h1 have c1: "step_factcheck (\<lambda>n d. FcClaims 2) (Some ''key'') (Some ?fc) ?entries 0
         = Inr (map (factcheck_apply ?fc) ?entries, Some ?fc, [])" by blast
  from w h2 have c2: "step_rdap (\<lambda>n d. None) ?rt 1262304000 (Some ?rd) ?entries 0
         = Inr (map (rdap_apply ?rt 1262304000 ?rd) ?entries, Some ?rd, [])" by blast
  from w h3 have c3: "step_factcheck (\<lambda>n d. FcFailed) (Some ''other key'') (Some ?cold) ?entries 5
         = Inr (map (factcheck_apply ?cold) ?entries, Some ?cold, [])" by blast
  from c1 v1 c2 v2 h3 c3 show ?thesis unfolding Let_def by blast
qed

text \<open>
  Claim C7 as stated fails for \<open>step_rdap\<close>: with the same input and the same warm cache,
  a run on 2010-01-01 and a run on 2011-01-01 both make no query, and give a domain
  registered on 2000-01-01 the ages 10.0 and 11.0.
\<close>

theorem step_rdap_depends_on_clock:
  "step_rdap (\<lambda>n d. None)
       (\<lambda>s. if s = ''2000-01-01T00:00:00Z'' then Some 946684800 else None) 1262304000
       (Some [(''example.com'',
                \<lparr> rdap_error = False, registered = Some ''2000-01-01T00:00:00Z'',
                  expires = None, updated = None \<rparr>)])
       [new_entry ''example.com'' ''fake'' {''fake''} [''opensources'']] 0
     = Inr ([(new_entry ''example.com'' ''fake'' {''fake''} [''opensources''])
               \<lparr> domain_age_years := Some 10,
                 domain_registered := Some ''2000-01-01T00:00:00Z'' \<rparr>],
            Some [(''example.com'',
                    \<lparr> rdap_error = False, registered = Some ''2000-01-01T00:00:00Z'',
                      expires = None, updated = None \<rparr>)], [])
   \<and> step_rdap (\<lambda>n d. None)
       (\<lambda>s. if s = ''2000-01-01T00:00:00Z'' then Some 946684800 else None) 1293840000
       (Some [(''example.com'',
                \<lparr> rdap_error = False, registered = Some ''2000-01-01T00:00:00Z'',
                  expires = None, updated = None \<rparr>)])
       [new_entry ''example.com'' ''fake'' {''fake''} [''opensources'']] 0
     = Inr ([(new_entry ''example.com'' ''fake'' {''fake''} [''opensources''])
               \<lparr> domain_age_years := Some 11,
                 domain_registered := Some ''2000-01-01T00:00:00Z'' \<rparr>],
            Some [(''example.com'',
                    \<lparr> rdap_error = False, registered = Some ''2000-01-01T00:00:00Z'',
                      expires = None, updated = None \<rparr>)], [])
   \<and> (10 :: real) \<noteq> 11"
  by code_simp


section \<open>The compact category letter\<close>

lemma first_letter_Inr: "first_letter cat = Inr ch \<longleftrightarrow> (\<exists>rest. cat = ch # rest)"
  by (cases cat) (auto simp: first_letter_def)

lemma first_letter_Inl: "first_letter cat = Inl err \<longleftrightarrow> cat = [] \<and> err = IndexError"
  by (cases cat) (auto simp: first_letter_def)

lemma step_merge_row_letter:
  "step_merge_row e = Inr v \<Longrightarrow> first_letter (category e) = Inr (compact_c v)"
  by (auto simp: step_merge_row_def Let_def split: sum.splits)

lemma step_score_row_letter:
  "step_score_row e = Inr v \<Longrightarrow> first_letter (category e) = Inr (compact_c v)"
  by (auto simp: step_score_row_def split: sum.splits)

lemma step_merge_row_total: "category e \<noteq> [] \<Longrightarrow> \<exists>v. step_merge_row e = Inr v"
  by (cases "category e") (auto simp: step_merge_row_def Let_def first_letter_def)

lemma step_score_row_total: "category e \<noteq> [] \<Longrightarrow> \<exists>v. step_score_row e = Inr v"
  by (cases "category e") (auto simp: step_score_row_def first_letter_def)

text \<open>Every key of the compact dataset comes from a record, and every record has its key.\<close>

lemma build_tier1_sound:
  "build_tier1 row es acc = Inr tier1 \<Longrightarrow> map_of tier1 d = Some v \<Longrightarrow>
     (\<exists>e \<in> set es. domain e = d \<and> row e = Inr v) \<or> map_of acc d = Some v"
proof (induction es arbitrary: acc)
  case Nil
  then show ?case by simp
next
  case (Cons e es)
  from Cons.prems(1) obtain w where w: "row e = Inr w"
    and r: "build_tier1 row es (AList.update (domain e) w acc) = Inr tier1"
    by (auto split: sum.splits)
  from Cons.IH[OF r Cons.prems(2)] w show ?case
    by (auto simp: update_conv' split: if_splits)
qed

lemma build_tier1_complete:
  "build_tier1 row es acc = Inr tier1 \<Longrightarrow>
     (\<forall>e \<in> set es. \<exists>v. map_of tier1 (domain e) = Some v)
     \<and> (\<forall>d v. map_of acc d = Some v \<longrightarrow> (\<exists>v'. map_of tier1 d = Some v'))"
proof (induction es arbitrary: acc)
  case Nil
  then show ?case by simp
next
  case (Cons e es)
  from Cons.prems(1) obtain w where w: "row e = Inr w"
    and r: "build_tier1 row es (AList.update (domain e) w acc) = Inr tier1"
    by (auto split: sum.splits)
  from Cons.IH[OF r] show ?case
    by (auto simp: update_conv' split: if_splits)
qed

lemma build_tier1_letters:
  assumes "build_tier1 row es [] = Inr tier1"
    and "\<And>e v. row e = Inr v \<Longrightarrow> first_letter (category e) = Inr (compact_c v)"
  shows "(\<forall>e \<in> set es. \<exists>v. map_of tier1 (domain e) = Some v)
       \<and> (\<forall>d v. map_of tier1 d = Some v \<longrightarrow>
            (\<exists>e \<in> set es. domain e = d \<and> (\<exists>rest. category e = compact_c v # rest)))"
proof -
  have "\<exists>e \<in> set es. domain e = d \<and> (\<exists>rest. category e = compact_c v # rest)"
    if "map_of tier1 d = Some v" for d v
  proof -
    from build_tier1_sound[OF assms(1) that] obtain e
      where e: "e \<in> set es" "domain e = d" "row e = Inr v" by auto
    from assms(2)[OF e(3)] have "\<exists>rest. category e = compact_c v # rest"
      by (simp add: first_letter_Inr)
    with e show ?thesis by blast
  qed
  with build_tier1_complete[OF assms(1)] show ?thesis by blast
qed

lemma step_merge_tier1:
  "step_merge py_float py_int raw rows = Inr (merged, tier1) \<Longrightarrow>
     build_tier1 step_merge_row merged [] = Inr tier1"
  by (auto simp: step_merge_def Let_def split: sum.splits)

lemma step_score_tier1:
  "step_score entries = Inr (scored, tier1) \<Longrightarrow> build_tier1 step_score_row scored [] = Inr tier1"
  by (auto simp: step_score_def split: sum.splits if_splits prod.splits)

lemma build_tier1_other:
  "build_tier1 row es acc = Inr tier1 \<Longrightarrow> d \<notin> domain ` set es \<Longrightarrow> map_of tier1 d = map_of acc d"
proof (induction es arbitrary: acc)
  case Nil
  then show ?case by simp
next
  case (Cons e es)
  from Cons.prems(1) obtain w where w: "row e = Inr w"
    and r: "build_tier1 row es (AList.update (domain e) w acc) = Inr tier1"
    by (auto split: sum.splits)
  from Cons.prems(2) have "d \<notin> domain ` set es" "d \<noteq> domain e" by auto
  with Cons.IH[OF r] show ?case by (simp add: update_conv')
qed

lemma build_tier1_distinct:
  "build_tier1 row es acc = Inr tier1 \<Longrightarrow> distinct (map domain es) \<Longrightarrow> e \<in> set es \<Longrightarrow>
     \<exists>v. row e = Inr v \<and> map_of tier1 (domain e) = Some v"
proof (induction es arbitrary: acc)
  case Nil
  then show ?case by simp
next
  case (Cons e0 es)
  from Cons.prems(1) obtain w where w: "row e0 = Inr w"
    and r: "build_tier1 row es (AList.update (domain e0) w acc) = Inr tier1"
    by (auto split: sum.splits)
  show ?case
  proof (cases "e \<in> set es")
    case True
    with Cons.IH[OF r] Cons.prems(2) show ?thesis by simp
  next
    case False
    with Cons.prems(3) have e: "e = e0" by simp
    from Cons.prems(2) have "domain e0 \<notin> domain ` set es" by simp
    from build_tier1_other[OF r this] w e show ?thesis by (simp add: update_conv')
  qed
qed

lemma build_tier1_own_letter:
  assumes "build_tier1 row es [] = Inr tier1" "distinct (map domain es)"
    and "\<And>e v. row e = Inr v \<Longrightarrow> first_letter (category e) = Inr (compact_c v)"
  shows "\<forall>e \<in> set es. \<exists>v rest. map_of tier1 (domain e) = Some v \<and> category e = compact_c v # rest"
proof
  fix e assume "e \<in> set es"
  from build_tier1_distinct[OF assms(1,2) this] obtain v
    where v: "row e = Inr v" "map_of tier1 (domain e) = Some v" by blast
  from assms(3)[OF v(1)] have "\<exists>rest. category e = compact_c v # rest"
    by (simp add: first_letter_Inr)
  with v(2) show "\<exists>v rest. map_of tier1 (domain e) = Some v \<and> category e = compact_c v # rest"
    by blast
qed

lemma map_filter_domains:
  assumes "\<And>d. d \<in> set ds \<Longrightarrow> \<exists>e. f d = Some e \<and> domain e = d"
  shows "map domain (List.map_filter f ds) = ds"
  using assms
proof (induction ds)
  case Nil
  then show ?case by simp
next
  case (Cons d ds)
  from Cons.prems[of d] obtain e where "f d = Some e" "domain e = d" by auto
  moreover have "map domain (List.map_filter f ds) = ds"
    by (rule Cons.IH) (use Cons.prems in auto)
  ultimately show ?case by simp
qed

lemma merged_domains:
  "map domain (merge_entries (parse_opensources raw) (parse_iffy py_float py_int rows))
     = all_domains (parse_opensources raw) (parse_iffy py_float py_int rows)"
  unfolding merge_entries_def
proof (rule map_filter_domains)
  fix d
  assume d: "d \<in> set (all_domains (parse_opensources raw) (parse_iffy py_float py_int rows))"
  from merge_one_present[OF d] obtain e
    where e: "merge_one (parse_opensources raw) (parse_iffy py_float py_int rows) d = Some e"
    by auto
  from merge_one_highest[OF parse_opensources_ok parse_iffy_ok e]
  have "domain e = d" by simp
  with e show "\<exists>e. merge_one (parse_opensources raw) (parse_iffy py_float py_int rows) d = Some e
                  \<and> domain e = d" by blast
qed

lemma merged_distinct:
  "distinct (map domain (merge_entries (parse_opensources raw) (parse_iffy py_float py_int rows)))"
  unfolding merged_domains by (simp add: all_domains_def)

lemma step_merge_merged:
  "step_merge py_float py_int raw rows = Inr (merged, tier1) \<Longrightarrow>
     merged = merge_entries (parse_opensources raw) (parse_iffy py_float py_int rows)"
  by (auto simp: step_merge_def Let_def split: sum.splits)


text \<open>
  Claim C10. Both writers of the compact output, \<open>step_merge\<close> and \<open>step_score\<close>, store
  under a record's domain the first character of its category: every value of the compact
  dataset carries the first character of the category of a record with that domain, every
  record has its key, and where the domains are distinct (as they always are after a merge)
  the value under a record's domain carries that record's own first character. The
  encoding is not injective: \<open>mixed\<close> and \<open>mostly_reliable\<close> both give \<open>m\<close>, the
  consumer's table reads \<open>m\<close> as \<open>mixed\<close>, and the Iffy row rated \<open>MH\<close> is a record of
  category \<open>mostly_reliable\<close> whose letter reads back as \<open>mixed\<close>.
\<close>

theorem compact_category_letter:
  "(step_merge_row e = Inr v \<longrightarrow> (\<exists>rest. category e = compact_c v # rest))
   \<and> (step_score_row e = Inr v \<longrightarrow> (\<exists>rest. category e = compact_c v # rest))
   \<and> (category e \<noteq> [] \<longrightarrow> (\<exists>v. step_merge_row e = Inr v) \<and> (\<exists>v. step_score_row e = Inr v))
   \<and> (step_merge py_float py_int raw rows = Inr (merged, tier1) \<longrightarrow>
        (\<forall>e \<in> set merged. \<exists>v rest. map_of tier1 (domain e) = Some v \<and> category e = compact_c v # rest)
        \<and> (\<forall>d v. map_of tier1 d = Some v \<longrightarrow>
             (\<exists>e \<in> set merged. domain e = d \<and> (\<exists>rest. category e = compact_c v # rest))))
   \<and> (step_score entries = Inr (scored, tier1') \<longrightarrow>
        map domain scored = map domain entries
        \<and> map category scored = map category entries
        \<and> (\<forall>e \<in> set scored. \<exists>v. map_of tier1' (domain e) = Some v)
        \<and> (\<forall>d v. map_of tier1' d = Some v \<longrightarrow>
             (\<exists>e \<in> set scored. domain e = d \<and> (\<exists>rest. category e = compact_c v # rest)))
        \<and> (distinct (map domain entries) \<longrightarrow>
             (\<forall>e \<in> set scored. \<exists>v rest. map_of tier1' (domain e) = Some v
                                       \<and> category e = compact_c v # rest)))
   \<and> first_letter ''mixed'' = Inr (CHR ''m'')
   \<and> first_letter ''mostly_reliable'' = Inr (CHR ''m'')
   \<and> ''mixed'' \<noteq> ''mostly_reliable''
   \<and> map_of CATEGORIES (CHR ''m'') = Some ''mixed''
   \<and> (case step_merge (\<lambda>_. None) (\<lambda>_. None) [] [[(''Domain'', ''example.com''), (''MBFC Fact'', ''MH'')]] of
        Inl err \<Rightarrow> False
      | Inr (merged, tier1) \<Rightarrow>
          map category merged = [''mostly_reliable'']
          \<and> map_option compact_c (map_of tier1 ''example.com'') = Some (CHR ''m'')
          \<and> (case step_score merged of
                Inl err \<Rightarrow> False
              | Inr (scored, tier1') \<Rightarrow>
                  map category scored = [''mostly_reliable'']
                  \<and> map_option compact_c (map_of tier1' ''example.com'') = Some (CHR ''m'')))"
proof -
  have 1: "step_merge_row e = Inr v \<longrightarrow> (\<exists>rest. category e = compact_c v # rest)"
    using step_merge_row_letter[of e v] by (simp add: first_letter_Inr)
  have 2: "step_score_row e = Inr v \<longrightarrow> (\<exists>rest. category e = compact_c v # rest)"
    using step_score_row_letter[of e v] by (simp add: first_letter_Inr)
  have 3: "category e \<noteq> [] \<longrightarrow> (\<exists>v. step_merge_row e = Inr v) \<and> (\<exists>v. step_score_row e = Inr v)"
    using step_merge_row_total step_score_row_total by blast
  have 4: "(\<forall>e \<in> set merged. \<exists>v rest. map_of tier1 (domain e) = Some v \<and> category e = compact_c v # rest)
        \<and> (\<forall>d v. map_of tier1 d = Some v \<longrightarrow>
             (\<exists>e \<in> set merged. domain e = d \<and> (\<exists>rest. category e = compact_c v # rest)))"
    if r: "step_merge py_float py_int raw rows = Inr (merged, tier1)"
  proof -
    note b = step_merge_tier1[OF r]
    have "distinct (map domain merged)"
      unfolding step_merge_merged[OF r] by (rule merged_distinct)
    from build_tier1_own_letter[OF b this step_merge_row_letter]
      build_tier1_letters[OF b step_merge_row_letter]
    show ?thesis by blast
  qed
  have 5: "map domain scored = map domain entries
        \<and> map category scored = map category entries
        \<and> (\<forall>e \<in> set scored. \<exists>v. map_of tier1' (domain e) = Some v)
        \<and> (\<forall>d v. map_of tier1' d = Some v \<longrightarrow>
             (\<exists>e \<in> set scored. domain e = d \<and> (\<exists>rest. category e = compact_c v # rest)))
        \<and> (distinct (map domain entries) \<longrightarrow>
             (\<forall>e \<in> set scored. \<exists>v rest. map_of tier1' (domain e) = Some v
                                       \<and> category e = compact_c v # rest))"
    if r: "step_score entries = Inr (scored, tier1')"
  proof -
    note b = step_score_tier1[OF r]
    note f = scored_fields[OF r]
    have "\<forall>e \<in> set scored. \<exists>v rest. map_of tier1' (domain e) = Some v
                                       \<and> category e = compact_c v # rest"
      if "distinct (map domain entries)"
      using build_tier1_own_letter[OF b _ step_score_row_letter] that f(2) by simp
    with f(2,3) build_tier1_letters[OF b step_score_row_letter] show ?thesis by blast
  qed
  from 1 2 3 4 5 category_letter_example show ?thesis by blast
qed


theorem compact_category_letter_witness:
  "(case step_merge (\<lambda>_. None) (\<lambda>_. None) [(''a.example'', [(''type'', ''fake'')])]
           [[(''Domain'', ''b.example''), (''MBFC Fact'', ''MH'')]] of
      Inl err \<Rightarrow> False
    | Inr (merged, tier1) \<Rightarrow>
        map category merged = [''fake'', ''mostly_reliable'']
        \<and> map (\<lambda>(d, v). (d, compact_c v)) tier1 = [(''a.example'', CHR ''f''), (''b.example'', CHR ''m'')]
        \<and> list_all (\<lambda>e. \<exists>v rest. map_of tier1 (domain e) = Some v \<and> category e = compact_c v # rest)
             merged)"
proof -
  let ?r = "step_merge (\<lambda>_. None) (\<lambda>_. None) [(''a.example'', [(''type'', ''fake'')])]
           [[(''Domain'', ''b.example''), (''MBFC Fact'', ''MH'')]]"
  have ev: "(case ?r of
      Inl err \<Rightarrow> False
    | Inr (merged, tier1) \<Rightarrow>
        map category merged = [''fake'', ''mostly_reliable'']
        \<and> map (\<lambda>(d, v). (d, compact_c v)) tier1 = [(''a.example'', CHR ''f''), (''b.example'', CHR ''m'')])"
    by code_simp
  then obtain merged tier1 where r: "?r = Inr (merged, tier1)"
    and m: "map category merged = [''fake'', ''mostly_reliable'']"
    and t: "map (\<lambda>(d, v). (d, compact_c v)) tier1 = [(''a.example'', CHR ''f''), (''b.example'', CHR ''m'')]"
    by (auto split: sum.splits)
  from compact_category_letter
    [of _ _ "\<lambda>_. None" "\<lambda>_. None" "[(''a.example'', [(''type'', ''fake'')])]"
        "[[(''Domain'', ''b.example''), (''MBFC Fact'', ''MH'')]]" merged tier1] r
  have "\<forall>e \<in> set merged. \<exists>v rest. map_of tier1 (domain e) = Some v \<and> category e = compact_c v # rest"
    by blast
  then have "list_all (\<lambda>e. \<exists>v rest. map_of tier1 (domain e) = Some v \<and> category e = compact_c v # rest)
             merged"
    unfolding list_all_iff .
  with r m t show ?thesis by simp
qed


end
